theory Spec2Isabelle
  imports Main
begin

section \<open>Harbor core middlewares: package util\<close>

text \<open>
  A shallow embedding of \<^verbatim>\<open>src/core/middlewares/util/util.go\<close>. Go strings are byte
  sequences and are modelled as \<^typ>\<open>string\<close>; \<^verbatim>\<open>int64\<close> identifiers are never
  computed with and are modelled as \<^typ>\<open>int\<close>.
\<close>

subsection \<open>Library functions used by the package\<close>

text \<open>
  Go's \<^verbatim>\<open>strings.Join(elems, sep)\<close>: the empty string for no element, the element itself
  for one, and otherwise the elements with \<^verbatim>\<open>sep\<close> between neighbours.
\<close>

fun Join :: "string list \<Rightarrow> string \<Rightarrow> string" where
  "Join [] sep = []"
| "Join [x] sep = x"
| "Join (x # y # ys) sep = x @ sep @ Join (y # ys) sep"

text \<open>
  Modelled from the spec: \<^verbatim>\<open>utils.ParseRepository\<close> (package \<^verbatim>\<open>src/common/utils\<close>) is not
  part of the file under study. The spec describes it as extracting the project-name
  prefix from the repository path: the first component is everything before the first
  slash, the second what follows that slash.
\<close>

definition ParseRepository :: "string \<Rightarrow> string \<times> string" where
  "ParseRepository repository =
     (let project = takeWhile (\<lambda>c. c \<noteq> CHR ''/'') repository
      in (project, drop (Suc (length project)) repository))"

subsection \<open>Value objects\<close>

record ChartVersionInfo =
  cv_ProjectID :: int
  cv_Namespace :: string
  cv_ChartName :: string
  cv_Version :: string

text \<open>
  A \<^verbatim>\<open>distribution.Descriptor\<close>; the fields are those the package copies.
\<close>

record Descriptor =
  d_MediaType :: string
  d_Size :: int
  d_Digest :: string
  d_URLs :: "string list"
  d_Annotations :: "(string \<times> string) list"
  d_Platform :: "(string \<times> string) option"

text \<open>
  A row of \<^verbatim>\<open>models.Artifact\<close> and of \<^verbatim>\<open>models.Blob\<close>, with the fields the package
  reads or writes. Times are abstract ticks.
\<close>

record Artifact =
  a_ID :: int
  a_PID :: int
  a_Repo :: string
  a_Tag :: string
  a_Digest :: string
  a_Kind :: string
  a_CreationTime :: nat
  a_PushTime :: nat

record Blob =
  b_Digest :: string
  b_ContentType :: string
  b_Size :: int

text \<open>
  Errors of the package and of its collaborators. \<^verbatim>\<open>dao.ErrDupRows\<close> is the sentinel the
  backing store returns for a duplicate row; every other error of a collaborator is
  \<open>ErrOther\<close> with its message. The remaining constructors are the errors the package
  itself builds with \<^verbatim>\<open>fmt.Errorf\<close>, and those of the digest parser.
\<close>

datatype error =
    ErrDupRows
  | ErrOther string
  | ErrNotMatchURL string
  | ErrUnsupportedContentType string
  | ErrBodyMissing
  | ErrGetProject string error
  | ErrProjectNotFound string
  | ErrDigestInvalidFormat
  | ErrDigestUnsupported
  | ErrDigestInvalidLength

text \<open>
  \<^verbatim>\<open>BlobInfo\<close> and \<^verbatim>\<open>ManifestInfo\<close>. A \<^verbatim>\<open>sync.Once\<close> is the flag that says whether its
  function has run; the zero value is \<open>False\<close>.
\<close>

record BlobInfo =
  bi_ProjectID :: int
  bi_ContentType :: string
  bi_Size :: int
  bi_Repository :: string
  bi_Digest :: string
  blobExist :: bool
  blobExistErr :: "error option"
  blobExistOnce :: bool

record ManifestInfo =
  ProjectID :: int
  Repository :: string
  Tag :: string
  Digest :: string
  References :: "Descriptor list"
  Descriptor :: "Descriptor option"
  manifestExist :: bool
  manifestExistErr :: "error option"
  manifestExistOnce :: bool
  artifact :: "Artifact option"
  artifactErr :: "error option"
  artifactOnce :: bool
  ExclusiveBlobs :: "Blob list"

text \<open>The Go zero values, from which composite literals start.\<close>

definition BlobInfo_zero :: BlobInfo where
  "BlobInfo_zero =
     \<lparr>bi_ProjectID = 0, bi_ContentType = [], bi_Size = 0, bi_Repository = [],
      bi_Digest = [], blobExist = False, blobExistErr = None, blobExistOnce = False\<rparr>"

definition ManifestInfo_zero :: ManifestInfo where
  "ManifestInfo_zero =
     \<lparr>ProjectID = 0, Repository = [], Tag = [], Digest = [], References = [],
      Descriptor = None, manifestExist = False, manifestExistErr = None,
      manifestExistOnce = False, artifact = None, artifactErr = None,
      artifactOnce = False, ExclusiveBlobs = []\<rparr>"

subsection \<open>Mutex keys\<close>

definition ChartVersionInfo_MutexKey :: "ChartVersionInfo \<Rightarrow> string list \<Rightarrow> string" where
  "ChartVersionInfo_MutexKey info suffix =
     (let a = [''quota'', cv_Namespace info, ''chart'', cv_ChartName info,
               ''version'', cv_Version info]
      in Join (a @ suffix) '':'')"

definition BlobInfo_MutexKey :: "BlobInfo \<Rightarrow> string list \<Rightarrow> string" where
  "BlobInfo_MutexKey info suffix =
     (let (projectName, _) = ParseRepository (bi_Repository info);
          a = [''quota'', projectName, ''blob'', bi_Digest info]
      in Join (a @ suffix) '':'')"

definition ManifestInfo_MutexKey :: "ManifestInfo \<Rightarrow> string list \<Rightarrow> string" where
  "ManifestInfo_MutexKey info suffix =
     (let (projectName, _) = ParseRepository (Repository info);
          a = (if Tag info \<noteq> [] then [''quota'', projectName, ''manifest'', Tag info]
               else [''quota'', projectName, ''manifest'', Digest info])
      in Join (a @ suffix) '':'')"

definition ManifestInfo_BlobMutexKey :: "ManifestInfo \<Rightarrow> Blob \<Rightarrow> string list \<Rightarrow> string" where
  "ManifestInfo_BlobMutexKey info blob suffix =
     (let (projectName, _) = ParseRepository (Repository info);
          a = [''quota'', projectName, ''blob'', b_Digest blob]
      in Join (a @ suffix) '':'')"

subsection \<open>Regular expressions\<close>

text \<open>
  The fragment of Go's \<^verbatim>\<open>regexp\<close> syntax that \<^verbatim>\<open>manifestURLRe\<close> uses: \<^verbatim>\<open>^\<close>, literals,
  character classes, concatenation, the greedy \<^verbatim>\<open>*\<close>, \<^verbatim>\<open>+\<close> and \<^verbatim>\<open>{0,k}\<close>, and numbered
  capture groups. Go matches runes; the literals and classes of the expression are ASCII,
  so that no byte of a longer rune is in any of them, and the model matches bytes.
\<close>

datatype re =
    Bol
  | Lit string
  | Cls "char \<Rightarrow> bool"
  | Seq re re
  | Star re
  | Plus re
  | Upto re nat
  | Cap nat re

type_synonym caps = "nat \<Rightarrow> string option"
type_synonym thread = "string \<times> caps"

primrec weight :: "re \<Rightarrow> nat" where
  "weight Bol = 0"
| "weight (Lit l) = 0"
| "weight (Cls p) = 0"
| "weight (Seq a b) = Suc (weight a + weight b)"
| "weight (Star a) = Suc (weight a)"
| "weight (Plus a) = Suc (Suc (weight a))"
| "weight (Upto a k) = Suc (weight a + k)"
| "weight (Cap i a) = Suc (weight a)"

text \<open>
  Go's matcher returns the match a backtracking search finds first (leftmost-first,
  greedy repetition). \<open>rmatch n r (s, c)\<close> lists, in the order in which such a search
  reaches them, the ways in which \<open>r\<close> can consume a prefix of the remaining input \<open>s\<close>:
  each entry is the input left over together with the captures so far. \<open>n\<close> is the
  length of the whole input, so that \<^verbatim>\<open>^\<close> succeeds only where nothing has been consumed.
  An iteration of \<^verbatim>\<open>*\<close> that consumes nothing is not repeated.
\<close>

function rmatch :: "nat \<Rightarrow> re \<Rightarrow> thread \<Rightarrow> thread list" where
  "rmatch n Bol (s, c) = (if length s = n then [(s, c)] else [])"
| "rmatch n (Lit l) (s, c) =
     (if take (length l) s = l then [(drop (length l) s, c)] else [])"
| "rmatch n (Cls p) (s, c) =
     (case s of [] \<Rightarrow> [] | x # xs \<Rightarrow> if p x then [(xs, c)] else [])"
| "rmatch n (Seq a b) t = concat (map (rmatch n b) (rmatch n a t))"
| "rmatch n (Star a) (s, c) =
     concat (map (\<lambda>(s', c'). if length s' < length s then rmatch n (Star a) (s', c') else [])
                 (rmatch n a (s, c))) @ [(s, c)]"
| "rmatch n (Plus a) t = concat (map (rmatch n (Star a)) (rmatch n a t))"
| "rmatch n (Upto a k) (s, c) =
     (if k = 0 then [(s, c)]
      else concat (map (rmatch n (Upto a (k - 1))) (rmatch n a (s, c))) @ [(s, c)])"
| "rmatch n (Cap i a) (s, c) =
     map (\<lambda>(s', c'). (s', c'(i \<mapsto> take (length s - length s') s))) (rmatch n a (s, c))"
  by pat_completeness auto
termination
  by (relation "inv_image (less_than <*lex*> less_than) (\<lambda>(n, r, s, c). (weight r, length s))")
    auto

primrec NumSubexp :: "re \<Rightarrow> nat" where
  "NumSubexp Bol = 0"
| "NumSubexp (Lit l) = 0"
| "NumSubexp (Cls p) = 0"
| "NumSubexp (Seq a b) = max (NumSubexp a) (NumSubexp b)"
| "NumSubexp (Star a) = NumSubexp a"
| "NumSubexp (Plus a) = NumSubexp a"
| "NumSubexp (Upto a k) = NumSubexp a"
| "NumSubexp (Cap i a) = max i (NumSubexp a)"

text \<open>The search tries the start offsets from left to right.\<close>

primrec try_offsets :: "re \<Rightarrow> string \<Rightarrow> nat list \<Rightarrow> (nat \<times> thread) option" where
  "try_offsets r s [] = None"
| "try_offsets r s (k # ks) =
     (case rmatch (length s) r (drop k s, Map.empty) of
        [] \<Rightarrow> try_offsets r s ks
      | t # _ \<Rightarrow> Some (k, t))"

text \<open>
  \<^verbatim>\<open>(*Regexp).FindStringSubmatch\<close>: nil (the empty list) when nothing matches, otherwise
  the text of the match followed by the text of each group, empty for a group that did
  not take part.
\<close>

definition FindStringSubmatch :: "re \<Rightarrow> string \<Rightarrow> string list" where
  "FindStringSubmatch r s =
     (case try_offsets r s [0..<Suc (length s)] of
        None \<Rightarrow> []
      | Some (k, (rest, c)) \<Rightarrow>
          take (length s - k - length rest) (drop k s)
            # map (\<lambda>i. case c i of None \<Rightarrow> [] | Some g \<Rightarrow> g) [1..<Suc (NumSubexp r)])"

definition in_range :: "char \<Rightarrow> char \<Rightarrow> char \<Rightarrow> bool" where
  "in_range lo hi c = ((of_char lo :: nat) \<le> of_char c \<and> (of_char c :: nat) \<le> of_char hi)"

text \<open>The classes \<^verbatim>\<open>[a-z0-9]\<close>, \<^verbatim>\<open>[._-]\<close>, \<^verbatim>\<open>[\w]\<close> and \<^verbatim>\<open>[\w.:-]\<close>.\<close>

definition lower_alnum :: "char \<Rightarrow> bool" where
  "lower_alnum c = (in_range CHR ''a'' CHR ''z'' c \<or> in_range CHR ''0'' CHR ''9'' c)"

definition separator :: "char \<Rightarrow> bool" where
  "separator c = (c = CHR ''.'' \<or> c = CHR ''_'' \<or> c = CHR ''-'')"

definition word_char :: "char \<Rightarrow> bool" where
  "word_char c = (in_range CHR ''0'' CHR ''9'' c \<or> in_range CHR ''A'' CHR ''Z'' c
                  \<or> c = CHR ''_'' \<or> in_range CHR ''a'' CHR ''z'' c)"

definition ref_char :: "char \<Rightarrow> bool" where
  "ref_char c = (word_char c \<or> c = CHR ''.'' \<or> c = CHR '':'' \<or> c = CHR ''-'')"

text \<open>
  \<^verbatim>\<open>^/v2/((?:[a-z0-9]+(?:[._-][a-z0-9]+)*/)+)manifests/([\w][\w.:-]{0,127})\<close>
\<close>

definition repository_re :: re where
  "repository_re =
     Plus (Seq (Plus (Cls lower_alnum))
               (Seq (Star (Seq (Cls separator) (Plus (Cls lower_alnum)))) (Lit ''/'')))"

definition reference_re :: re where
  "reference_re = Seq (Cls word_char) (Upto (Cls ref_char) 127)"

definition manifestURLRe :: re where
  "manifestURLRe =
     Seq Bol (Seq (Lit ''/v2/'') (Seq (Cap 1 repository_re)
       (Seq (Lit ''manifests/'') (Cap 2 reference_re))))"

definition TrimSuffix :: "string \<Rightarrow> string \<Rightarrow> string" where
  "TrimSuffix s suffix =
     (if length suffix \<le> length s \<and> drop (length s - length suffix) s = suffix
      then take (length s - length suffix) s else s)"

subsection \<open>Requests\<close>

text \<open>
  A reader yields its pending bytes and then ends, with end-of-file or with an error.
  \<^verbatim>\<open>ioutil.ReadAll\<close> drains it and returns what it read together with the error;
  \<^verbatim>\<open>bytes.NewBuffer\<close> is a reader over the given bytes that cannot fail, and
  \<^verbatim>\<open>ioutil.NopCloser\<close> changes nothing of what is read.
\<close>

datatype reader = Reader (pending: string) (failure: "error option")

definition ReadAll :: "reader \<Rightarrow> (string \<times> error option) \<times> reader" where
  "ReadAll r = ((pending r, failure r), Reader [] (failure r))"

definition NewBuffer :: "string \<Rightarrow> reader" where
  "NewBuffer b = Reader b None"

text \<open>
  The parts of an \<^verbatim>\<open>http.Request\<close> the package looks at. \<^verbatim>\<open>Header.Get\<close> returns the first
  value stored under the key, or the empty string; the only key the package asks for is
  in canonical form already.
\<close>

record Request =
  Method :: string
  Path :: string
  Header :: "string \<Rightarrow> string list"
  Body :: "reader option"

definition Header_Get :: "(string \<Rightarrow> string list) \<Rightarrow> string \<Rightarrow> string" where
  "Header_Get h key = (case h key of [] \<Rightarrow> [] | v # _ \<Rightarrow> v)"

text \<open>
  \<^verbatim>\<open>digest.Parse(s)\<close> of the go-digest library converts \<^verbatim>\<open>s\<close> to a \<^verbatim>\<open>Digest\<close> (a string
  type) and returns it with the verdict of its validation. The validation rules belong to
  the library and are a parameter here.
\<close>

definition digest_Parse :: "(string \<Rightarrow> error option) \<Rightarrow> string \<Rightarrow> error + string" where
  "digest_Parse validate s = (case validate s of None \<Rightarrow> Inr s | Some err \<Rightarrow> Inl err)"

text \<open>
  The validation of go-digest (release v1.0.0-rc0): the string must have a colon with
  something after it and match \<^verbatim>\<open>^[a-zA-Z0-9-_+.]+:[a-fA-F0-9]+$\<close>, or its format is
  invalid; the algorithm before the colon must be one of the registered \<^verbatim>\<open>sha256\<close>,
  \<^verbatim>\<open>sha384\<close> and \<^verbatim>\<open>sha512\<close>; and the hexadecimal part must have twice the length of
  that algorithm's hash. Neither class of the expression contains the colon, so the
  algorithm is what precedes the first colon and the encoded part is all that follows it.
\<close>

definition algorithm_char :: "char \<Rightarrow> bool" where
  "algorithm_char c =
     (in_range CHR ''a'' CHR ''z'' c \<or> in_range CHR ''A'' CHR ''Z'' c \<or> in_range CHR ''0'' CHR ''9'' c
      \<or> c = CHR ''-'' \<or> c = CHR ''_'' \<or> c = CHR ''+'' \<or> c = CHR ''.'')"

definition hex_char :: "char \<Rightarrow> bool" where
  "hex_char c =
     (in_range CHR ''a'' CHR ''f'' c \<or> in_range CHR ''A'' CHR ''F'' c \<or> in_range CHR ''0'' CHR ''9'' c)"

definition digest_Validate :: "string \<Rightarrow> error option" where
  "digest_Validate s =
     (let algorithm = takeWhile (\<lambda>c. c \<noteq> CHR '':'') s;
          encoded = drop (Suc (length algorithm)) s
      in if CHR '':'' \<notin> set s \<or> encoded = []
            \<or> \<not> (algorithm \<noteq> [] \<and> list_all algorithm_char algorithm
                   \<and> list_all hex_char encoded)
         then Some ErrDigestInvalidFormat
         else case map_of [(''sha256'', 32), (''sha384'', 48), (''sha512'', 64)] algorithm of
                None \<Rightarrow> Some ErrDigestUnsupported
              | Some hash_size \<Rightarrow>
                  if (hash_size :: nat) * 2 \<noteq> length encoded then Some ErrDigestInvalidLength
                  else None)"

subsection \<open>URL matchers\<close>

definition MatchManifestURL :: "Request \<Rightarrow> bool \<times> string \<times> string" where
  "MatchManifestURL req =
     (let s = FindStringSubmatch manifestURLRe (Path req)
      in if length s = 3 then (True, TrimSuffix (s ! 1) ''/'', s ! 2)
         else (False, [], []))"

definition MatchPullManifest :: "Request \<Rightarrow> bool \<times> string \<times> string" where
  "MatchPullManifest req =
     (if Method req \<noteq> ''GET'' then (False, [], []) else MatchManifestURL req)"

definition MatchPushManifest :: "Request \<Rightarrow> bool \<times> string \<times> string" where
  "MatchPushManifest req =
     (if Method req \<noteq> ''PUT'' then (False, [], []) else MatchManifestURL req)"

text \<open>
  The results of \<^verbatim>\<open>MatchDeleteManifest\<close> are named: a bare \<^verbatim>\<open>return\<close> returns what they
  hold at that point.
\<close>

definition MatchDeleteManifest ::
  "(string \<Rightarrow> error option) \<Rightarrow> Request \<Rightarrow> bool \<times> string \<times> string" where
  "MatchDeleteManifest validate req =
     (if Method req \<noteq> ''DELETE'' then (False, [], [])
      else case MatchManifestURL req of
        (match, repository, reference) \<Rightarrow>
          (case digest_Parse validate reference of
             Inl err \<Rightarrow> (False, repository, reference)
           | Inr _ \<Rightarrow> (match, repository, reference)))"

subsection \<open>Memoized queries\<close>

text \<open>
  The backing store is a state of an arbitrary type \<open>'db\<close>; a query of package \<^verbatim>\<open>dao\<close>
  takes its arguments and the store and returns its result with the store it leaves. The
  queries are parameters. An accessor takes the info object and the store and returns
  them with its result; \<^verbatim>\<open>once.Do(f)\<close> runs \<open>f\<close> when the flag is unset and sets it.
\<close>

definition BlobInfo_BlobExists ::
  "(int \<Rightarrow> string \<Rightarrow> 'db \<Rightarrow> (bool \<times> error option) \<times> 'db)
    \<Rightarrow> BlobInfo \<times> 'db \<Rightarrow> (bool \<times> error option) \<times> (BlobInfo \<times> 'db)" where
  "BlobInfo_BlobExists HasBlobInProject st =
     (case st of (info, db) \<Rightarrow>
        let (info', db') =
              (if blobExistOnce info then (info, db)
               else case HasBlobInProject (bi_ProjectID info) (bi_Digest info) db of
                      ((exist, err), db1) \<Rightarrow>
                        (info\<lparr>blobExist := exist, blobExistErr := err, blobExistOnce := True\<rparr>, db1))
        in ((blobExist info', blobExistErr info'), (info', db')))"

definition ManifestInfo_fetchArtifact ::
  "(string \<Rightarrow> string \<Rightarrow> 'db \<Rightarrow> (Artifact option \<times> error option) \<times> 'db)
    \<Rightarrow> ManifestInfo \<times> 'db \<Rightarrow> (Artifact option \<times> error option) \<times> (ManifestInfo \<times> 'db)" where
  "ManifestInfo_fetchArtifact GetArtifact st =
     (case st of (info, db) \<Rightarrow>
        let (info', db') =
              (if artifactOnce info then (info, db)
               else case GetArtifact (Repository info) (Tag info) db of
                      ((a, err), db1) \<Rightarrow>
                        (info\<lparr>artifact := a, artifactErr := err, artifactOnce := True\<rparr>, db1))
        in ((artifact info', artifactErr info'), (info', db')))"

definition ManifestInfo_IsNewTag ::
  "(string \<Rightarrow> string \<Rightarrow> 'db \<Rightarrow> (Artifact option \<times> error option) \<times> 'db)
    \<Rightarrow> ManifestInfo \<times> 'db \<Rightarrow> bool \<times> (ManifestInfo \<times> 'db)" where
  "ManifestInfo_IsNewTag GetArtifact st =
     (case ManifestInfo_fetchArtifact GetArtifact st of
        ((a, _), st') \<Rightarrow> (a = None, st'))"

text \<open>\<open>now\<close> is the value of \<^verbatim>\<open>time.Now()\<close> at the call.\<close>

definition ManifestInfo_Artifact ::
  "(string \<Rightarrow> string \<Rightarrow> 'db \<Rightarrow> (Artifact option \<times> error option) \<times> 'db)
    \<Rightarrow> nat \<Rightarrow> ManifestInfo \<times> 'db \<Rightarrow> Artifact \<times> (ManifestInfo \<times> 'db)" where
  "ManifestInfo_Artifact GetArtifact now st =
     (let result = \<lparr>a_ID = 0, a_PID = ProjectID (fst st), a_Repo = Repository (fst st),
                     a_Tag = Tag (fst st), a_Digest = Digest (fst st),
                     a_Kind = ''Docker-Image'', a_CreationTime = 0, a_PushTime = 0\<rparr>
      in case ManifestInfo_fetchArtifact GetArtifact st of
           ((Some a, _), st') \<Rightarrow>
             (result\<lparr>a_ID := a_ID a, a_CreationTime := a_CreationTime a, a_PushTime := now\<rparr>, st')
         | ((None, _), st') \<Rightarrow> (result, st'))"

text \<open>
  The query of \<^verbatim>\<open>ManifestExists\<close> is \<^verbatim>\<open>dao.GetTotalOfArtifacts\<close> with a query for the
  project id and the digest; it returns a count.
\<close>

definition ManifestInfo_ManifestExists ::
  "(int \<Rightarrow> string \<Rightarrow> 'db \<Rightarrow> (int \<times> error option) \<times> 'db)
    \<Rightarrow> ManifestInfo \<times> 'db \<Rightarrow> (bool \<times> error option) \<times> (ManifestInfo \<times> 'db)" where
  "ManifestInfo_ManifestExists GetTotalOfArtifacts st =
     (case st of (info, db) \<Rightarrow>
        let (info', db') =
              (if manifestExistOnce info then (info, db)
               else case GetTotalOfArtifacts (ProjectID info) (Digest info) db of
                      ((count, err), db1) \<Rightarrow>
                        (info\<lparr>manifestExist := count > 0, manifestExistErr := err,
                              manifestExistOnce := True\<rparr>, db1))
        in ((manifestExist info', manifestExistErr info'), (info', db')))"

text \<open>A sequence of calls on one object: each call starts where the one before ended.\<close>

primrec calls :: "('c \<Rightarrow> 's \<Rightarrow> 'r \<times> 's) \<Rightarrow> 'c list \<Rightarrow> 's \<Rightarrow> 'r list \<times> 's" where
  "calls f [] st = ([], st)"
| "calls f (c # cs) st =
     (case f c st of (r, st1) \<Rightarrow> (case calls f cs st1 of (rs, st2) \<Rightarrow> (r # rs, st2)))"

text \<open>
  The accessors of the artifact, as one type of call with one type of result, and a store
  query that counts how often it is issued.
\<close>

datatype artifact_call = Call_fetchArtifact | Call_IsNewTag | Call_Artifact nat

datatype artifact_result =
    Fetched "Artifact option" "error option"
  | NewTag bool
  | Built Artifact

definition artifact_accessor ::
  "(string \<Rightarrow> string \<Rightarrow> 'db \<Rightarrow> (Artifact option \<times> error option) \<times> 'db)
    \<Rightarrow> artifact_call \<Rightarrow> ManifestInfo \<times> 'db \<Rightarrow> artifact_result \<times> (ManifestInfo \<times> 'db)" where
  "artifact_accessor GetArtifact c st =
     (case c of
        Call_fetchArtifact \<Rightarrow>
          (case ManifestInfo_fetchArtifact GetArtifact st of ((a, e), st') \<Rightarrow> (Fetched a e, st'))
      | Call_IsNewTag \<Rightarrow>
          (case ManifestInfo_IsNewTag GetArtifact st of (b, st') \<Rightarrow> (NewTag b, st'))
      | Call_Artifact now \<Rightarrow>
          (case ManifestInfo_Artifact GetArtifact now st of (a, st') \<Rightarrow> (Built a, st')))"

definition counting ::
  "('a \<Rightarrow> 'b \<Rightarrow> 'db \<Rightarrow> 'r \<times> 'db) \<Rightarrow> 'a \<Rightarrow> 'b \<Rightarrow> 'db \<times> nat \<Rightarrow> 'r \<times> ('db \<times> nat)" where
  "counting query x y st =
     (case st of (db, k) \<Rightarrow> (case query x y db of (r, db') \<Rightarrow> (r, (db', Suc k))))"

subsection \<open>Synchronising blobs\<close>

definition ManifestInfo_SyncBlobs ::
  "(Descriptor list \<Rightarrow> 'db \<Rightarrow> error option \<times> 'db)
    \<Rightarrow> ManifestInfo \<Rightarrow> 'db \<Rightarrow> error option \<times> 'db" where
  "ManifestInfo_SyncBlobs SyncBlobs info db =
     (case SyncBlobs (References info) db of
        (err, db') \<Rightarrow> if err = Some ErrDupRows then (None, db') else (err, db'))"

subsection \<open>Policy checker\<close>

text \<open>
  \<^verbatim>\<open>models.Severity\<close> and \<^verbatim>\<open>models.CVEWhitelist\<close> are declared outside this file; the
  composite literal \<^verbatim>\<open>models.CVEWhitelist{}\<close> is the zero value, with no item.
\<close>

datatype Severity = SevNone | SevUnknown | SevLow | SevMedium | SevHigh

record CVEWhitelist =
  wl_ID :: int
  wl_ProjectID :: int
  wl_ExpiresAt :: "int option"
  wl_Items :: "string list"

definition CVEWhitelist_zero :: CVEWhitelist where
  "CVEWhitelist_zero = \<lparr>wl_ID = 0, wl_ProjectID = 0, wl_ExpiresAt = None, wl_Items = []\<rparr>"

text \<open>
  What the checker calls: the project manager's \<^verbatim>\<open>Get\<close>, the methods and the id of the
  \<^verbatim>\<open>*models.Project\<close> it returns (a pointer, of type \<open>'p\<close> here), the whitelist manager and
  \<^verbatim>\<open>clair.ParseClairSev\<close>. All are declared outside this file.
\<close>

record 'p policy_env =
  pm_Get :: "string \<Rightarrow> error + 'p"
  project_ContentTrustEnabled :: "'p \<Rightarrow> bool"
  project_ReuseSysCVEWhitelist :: "'p \<Rightarrow> bool"
  project_VulPrevented :: "'p \<Rightarrow> bool"
  project_Severity :: "'p \<Rightarrow> string"
  project_ProjectID :: "'p \<Rightarrow> int"
  mgr_GetSys :: "error + CVEWhitelist"
  mgr_Get :: "int \<Rightarrow> error + CVEWhitelist"
  ParseClairSev :: "string \<Rightarrow> Severity"

definition ContentTrustEnabled :: "'p policy_env \<Rightarrow> string \<Rightarrow> bool" where
  "ContentTrustEnabled pc name =
     (case pm_Get pc name of
        Inl err \<Rightarrow> True
      | Inr project \<Rightarrow> project_ContentTrustEnabled pc project)"

definition VulnerablePolicy ::
  "'p policy_env \<Rightarrow> string \<Rightarrow> bool \<times> Severity \<times> CVEWhitelist" where
  "VulnerablePolicy pc name =
     (let wl = CVEWhitelist_zero
      in case pm_Get pc name of
        Inl err \<Rightarrow> (True, SevUnknown, wl)
      | Inr project \<Rightarrow>
          (if project_ReuseSysCVEWhitelist pc project then
             (case mgr_GetSys pc of
                Inl err \<Rightarrow> (project_VulPrevented pc project,
                            ParseClairSev pc (project_Severity pc project), wl)
              | Inr w \<Rightarrow> (project_VulPrevented pc project,
                          ParseClairSev pc (project_Severity pc project), w))
           else
             (case mgr_Get pc (project_ProjectID pc project) of
                Inl err \<Rightarrow> (project_VulPrevented pc project,
                            ParseClairSev pc (project_Severity pc project), wl)
              | Inr w \<Rightarrow> (project_VulPrevented pc project,
                          ParseClairSev pc (project_Severity pc project), w))))"

subsection \<open>Parsing manifest information\<close>

text \<open>The media types of a manifest that the parser accepts.\<close>

definition schema1_MediaTypeManifest :: string where
  "schema1_MediaTypeManifest = ''application/vnd.docker.distribution.manifest.v1+json''"

definition schema1_MediaTypeSignedManifest :: string where
  "schema1_MediaTypeSignedManifest = ''application/vnd.docker.distribution.manifest.v1+prettyjws''"

definition schema2_MediaTypeManifest :: string where
  "schema2_MediaTypeManifest = ''application/vnd.docker.distribution.manifest.v2+json''"

definition ocispec_MediaTypeImageManifest :: string where
  "ocispec_MediaTypeImageManifest = ''application/vnd.oci.image.manifest.v1+json''"

text \<open>
  A row of \<^verbatim>\<open>models.Project\<close>. \<^verbatim>\<open>dao.GetProjectByName\<close> returns an error, or a pointer that
  is nil when there is no such project. The two decodings of \<^verbatim>\<open>json.Unmarshal\<close>, into an
  OCI manifest (of which the layers are used) and into an OCI descriptor, are parameters,
  as is the project lookup.
\<close>

record Project =
  p_ProjectID :: int
  p_Name :: string

record parse_env =
  validate :: "string \<Rightarrow> error option"
  Unmarshal_Manifest :: "string \<Rightarrow> error + Descriptor list"
  Unmarshal_Descriptor :: "string \<Rightarrow> error + Descriptor"
  GetProjectByName :: "string \<Rightarrow> error + Project option"

definition supported_media_type :: "string \<Rightarrow> bool" where
  "supported_media_type mediaType =
     (\<not> (mediaType \<noteq> schema1_MediaTypeManifest \<and>
         mediaType \<noteq> schema1_MediaTypeSignedManifest \<and>
         mediaType \<noteq> schema2_MediaTypeManifest \<and>
         mediaType \<noteq> ocispec_MediaTypeImageManifest))"

text \<open>
  The end of \<^verbatim>\<open>ParseManifestInfoFromReq\<close>, from the project lookup on: it no longer touches
  the request.
\<close>

definition build_info ::
  "parse_env \<Rightarrow> string \<Rightarrow> string \<Rightarrow> Descriptor list \<Rightarrow> Descriptor \<Rightarrow> error + ManifestInfo" where
  "build_info env repository tag layers desc =
     (case ParseRepository repository of
        (projectName, _) \<Rightarrow>
          (case GetProjectByName env projectName of
             Inl err \<Rightarrow> Inl (ErrGetProject projectName err)
           | Inr None \<Rightarrow> Inl (ErrProjectNotFound projectName)
           | Inr (Some project) \<Rightarrow>
               Inr (ManifestInfo_zero\<lparr>
                      ProjectID := p_ProjectID project,
                      Repository := repository,
                      Tag := tag,
                      Digest := d_Digest desc,
                      References := map (\<lambda>layer.
                          \<lparr>d_MediaType = d_MediaType layer, d_Size = d_Size layer,
                           d_Digest = d_Digest layer, d_URLs = d_URLs layer,
                           d_Annotations = d_Annotations layer,
                           d_Platform = d_Platform layer\<rparr>) layers,
                      Descriptor := Some
                          \<lparr>d_MediaType = d_MediaType desc, d_Size = d_Size desc,
                           d_Digest = d_Digest desc, d_URLs = d_URLs desc,
                           d_Annotations = d_Annotations desc,
                           d_Platform = d_Platform desc\<rparr>\<rparr>)))"

text \<open>
  \<^verbatim>\<open>ParseManifestInfoFromReq\<close> assigns to \<^verbatim>\<open>req.Body\<close>; the model returns the request as
  the function leaves it, next to the result.
\<close>

definition ParseManifestInfoFromReq ::
  "parse_env \<Rightarrow> Request \<Rightarrow> (error + ManifestInfo) \<times> Request" where
  "ParseManifestInfoFromReq env req =
     (case MatchManifestURL req of
        (match, repository, reference) \<Rightarrow>
          if \<not> match then (Inl (ErrNotMatchURL (Path req)), req)
          else
            let tag = (case digest_Parse (validate env) reference of
                         Inl err \<Rightarrow> reference | Inr _ \<Rightarrow> []);
                mediaType = Header_Get (Header req) ''Content-Type''
            in if \<not> supported_media_type mediaType
               then (Inl (ErrUnsupportedContentType mediaType), req)
               else
                 (case Body req of
                    None \<Rightarrow> (Inl ErrBodyMissing, req)
                  | Some rd \<Rightarrow>
                      (case ReadAll rd of
                         ((body, Some err), rd') \<Rightarrow> (Inl err, req\<lparr>Body := Some rd'\<rparr>)
                       | ((body, None), rd') \<Rightarrow>
                           let req1 = req\<lparr>Body := Some (NewBuffer body)\<rparr>
                           in (case Unmarshal_Manifest env body of
                                 Inl err \<Rightarrow> (Inl err, req1)
                               | Inr layers \<Rightarrow>
                                   (case ReadAll (NewBuffer body) of
                                      ((body2, Some err), rd2) \<Rightarrow>
                                        (Inl err, req1\<lparr>Body := Some rd2\<rparr>)
                                    | ((body2, None), rd2) \<Rightarrow>
                                        let req2 = req1\<lparr>Body := Some (NewBuffer body2)\<rparr>
                                        in (case Unmarshal_Descriptor env body2 of
                                              Inl err \<Rightarrow> (Inl err, req2)
                                            | Inr desc \<Rightarrow>
                                                (build_info env repository tag layers desc,
                                                 req2)))))))"

definition ParseManifestInfoFromPath ::
  "parse_env \<Rightarrow> Request \<Rightarrow> error + ManifestInfo" where
  "ParseManifestInfoFromPath env req =
     (case MatchManifestURL req of
        (match, repository, reference) \<Rightarrow>
          if \<not> match then Inl (ErrNotMatchURL (Path req))
          else
            (case ParseRepository repository of
               (projectName, _) \<Rightarrow>
                 (case GetProjectByName env projectName of
                    Inl err \<Rightarrow> Inl (ErrGetProject projectName err)
                  | Inr None \<Rightarrow> Inl (ErrProjectNotFound projectName)
                  | Inr (Some project) \<Rightarrow>
                      let info = ManifestInfo_zero\<lparr>ProjectID := p_ProjectID project,
                                                   Repository := repository\<rparr>
                      in (case digest_Parse (validate env) reference of
                            Inl err \<Rightarrow> Inr (info\<lparr>Tag := reference\<rparr>)
                          | Inr dgt \<Rightarrow> Inr (info\<lparr>Digest := dgt\<rparr>)))))"

subsection \<open>What a regular expression matches\<close>

text \<open>
  The words a regular expression without \<^verbatim>\<open>^\<close> and without groups matches, independently of
  the search order of the matcher.
\<close>

inductive matches :: "re \<Rightarrow> string \<Rightarrow> bool" where
  m_Lit: "matches (Lit l) l"
| m_Cls: "p x \<Longrightarrow> matches (Cls p) [x]"
| m_Seq: "matches a u \<Longrightarrow> matches b v \<Longrightarrow> matches (Seq a b) (u @ v)"
| m_Star0: "matches (Star a) []"
| m_Star: "matches a u \<Longrightarrow> matches (Star a) v \<Longrightarrow> matches (Star a) (u @ v)"
| m_Plus: "matches a u \<Longrightarrow> matches (Star a) v \<Longrightarrow> matches (Plus a) (u @ v)"
| m_Upto0: "matches (Upto a k) []"
| m_Upto: "matches a u \<Longrightarrow> matches (Upto a k) v \<Longrightarrow> matches (Upto a (Suc k)) (u @ v)"

primrec plain :: "re \<Rightarrow> bool" where
  "plain Bol = False"
| "plain (Lit l) = True"
| "plain (Cls p) = True"
| "plain (Seq a b) = (plain a \<and> plain b)"
| "plain (Star a) = plain a"
| "plain (Plus a) = plain a"
| "plain (Upto a k) = plain a"
| "plain (Cap i a) = False"

text \<open>The parts of \<^verbatim>\<open>manifestURLRe\<close>: a separator with the run after it, and a segment with its slash.\<close>

definition block_re :: re where
  "block_re = Seq (Cls separator) (Plus (Cls lower_alnum))"

definition segment_slash_re :: re where
  "segment_slash_re = Seq (Plus (Cls lower_alnum)) (Seq (Star block_re) (Lit ''/''))"

text \<open>The threads of the matcher for the part of \<^verbatim>\<open>manifestURLRe\<close> after \<^verbatim>\<open>^\<close>.\<close>

definition url_threads :: "string \<Rightarrow> thread list" where
  "url_threads s =
     rmatch (length s)
       (Seq (Lit ''/v2/'') (Seq (Cap 1 repository_re) (Seq (Lit ''manifests/'') (Cap 2 reference_re))))
       (s, Map.empty)"

text \<open>What follows the first slash of a string.\<close>

definition after_slash :: "string \<Rightarrow> string" where
  "after_slash s = drop (Suc (length (takeWhile (\<lambda>x. x \<noteq> CHR ''/'') s))) s"

subsection \<open>The shape of a manifest path\<close>

text \<open>
  A segment of a repository path: runs of lower-case letters and digits, with a single
  separator between two runs.
\<close>

fun is_segment :: "string \<Rightarrow> bool" where
  "is_segment [] = False"
| "is_segment [x] = lower_alnum x"
| "is_segment (x # y # ys) =
     (lower_alnum x \<and> (if separator y then is_segment ys else is_segment (y # ys)))"

text \<open>The pieces of a string between the occurrences of a delimiter; there is always one.\<close>

fun split_on :: "char \<Rightarrow> string \<Rightarrow> string list" where
  "split_on d [] = [[]]"
| "split_on d (x # xs) =
     (if x = d then [] # split_on d xs
      else (case split_on d xs of [] \<Rightarrow> [[x]] | p # ps \<Rightarrow> (x # p) # ps))"

text \<open>A repository path: one or more segments separated by slashes.\<close>

definition is_repo_path :: "string \<Rightarrow> bool" where
  "is_repo_path repo = list_all is_segment (split_on CHR ''/'' repo)"

text \<open>
  A reference as the expression takes it: a word character followed by at most 127
  characters that are word characters, dots, colons or dashes.
\<close>

definition is_reference :: "string \<Rightarrow> bool" where
  "is_reference ref =
     (case ref of [] \<Rightarrow> False
      | x # xs \<Rightarrow> word_char x \<and> list_all ref_char xs \<and> length xs \<le> 127)"

text \<open>
  A reference in the spec's words: 1 to 128 characters drawn from word characters, dots,
  colons and dashes.
\<close>

definition spec_reference :: "string \<Rightarrow> bool" where
  "spec_reference ref = (1 \<le> length ref \<and> length ref \<le> 128 \<and> list_all ref_char ref)"

subsection \<open>Example requests\<close>

definition no_header :: "string \<Rightarrow> string list" where
  "no_header key = []"

definition delete_by_tag :: Request where
  "delete_by_tag =
     \<lparr>Method = ''DELETE'', Path = ''/v2/a/b/manifests/latest'', Header = no_header, Body = None\<rparr>"

definition delete_by_digest :: Request where
  "delete_by_digest =
     \<lparr>Method = ''DELETE'',
      Path = ''/v2/a/b/manifests/sha256:0123456789abcdef0123456789abcdef0123456789abcdef0123456789abcdef'',
      Header = no_header, Body = None\<rparr>"

text \<open>A sha512 digest, of 135 characters, and the request to delete a manifest by it.\<close>

definition sha512_digest :: string where
  "sha512_digest =
     ''sha512:0123456789abcdef0123456789abcdef0123456789abcdef0123456789abcdef0123456789abcdef0123456789abcdef0123456789abcdef0123456789abcdef''"

definition delete_by_sha512 :: Request where
  "delete_by_sha512 =
     \<lparr>Method = ''DELETE'', Path = ''/v2/a/b/manifests/'' @ sha512_digest, Header = no_header,
      Body = None\<rparr>"

definition dash_reference :: Request where
  "dash_reference =
     \<lparr>Method = ''GET'', Path = ''/v2/a/manifests/-x'', Header = no_header, Body = None\<rparr>"

definition library_env :: parse_env where
  "library_env =
     \<lparr>validate = digest_Validate,
      Unmarshal_Manifest = (\<lambda>b. Inl (ErrOther ''unexpected end of JSON input'')),
      Unmarshal_Descriptor = (\<lambda>b. Inl (ErrOther ''unexpected end of JSON input'')),
      GetProjectByName = (\<lambda>n. if n = ''a'' then Inr (Some \<lparr>p_ProjectID = 7, p_Name = ''a''\<rparr>)
                               else Inr None)\<rparr>"

subsection \<open>Reference results and example inputs\<close>

text \<open>
  What each accessor of the artifact returns when the query gave the pair \<open>(a, e)\<close>: the
  pair itself, whether there is no artifact, and the record built from the info object
  and the artifact.
\<close>

definition answer :: "ManifestInfo \<Rightarrow> Artifact option \<Rightarrow> error option \<Rightarrow> artifact_call \<Rightarrow> artifact_result" where
  "answer info a e c =
     (case c of
        Call_fetchArtifact \<Rightarrow> Fetched a e
      | Call_IsNewTag \<Rightarrow> NewTag (a = None)
      | Call_Artifact now \<Rightarrow>
          Built \<lparr>a_ID = (case a of None \<Rightarrow> 0 | Some x \<Rightarrow> a_ID x),
                 a_PID = ProjectID info, a_Repo = Repository info, a_Tag = Tag info,
                 a_Digest = Digest info, a_Kind = ''Docker-Image'',
                 a_CreationTime = (case a of None \<Rightarrow> 0 | Some x \<Rightarrow> a_CreationTime x),
                 a_PushTime = (case a of None \<Rightarrow> 0 | Some x \<Rightarrow> now)\<rparr>)"

text \<open>
  A store that is a counter: its queries answer from the counter and advance it, so that
  two queries never give the same answer.
\<close>

definition ticking_HasBlobInProject :: "int \<Rightarrow> string \<Rightarrow> nat \<Rightarrow> (bool \<times> error option) \<times> nat" where
  "ticking_HasBlobInProject pid dgt db = ((even db, None), Suc db)"

definition ticking_GetTotalOfArtifacts :: "int \<Rightarrow> string \<Rightarrow> nat \<Rightarrow> (int \<times> error option) \<times> nat" where
  "ticking_GetTotalOfArtifacts pid dgt db = ((int db, None), Suc db)"

definition ticking_GetArtifact ::
  "string \<Rightarrow> string \<Rightarrow> nat \<Rightarrow> (Artifact option \<times> error option) \<times> nat" where
  "ticking_GetArtifact repo tag db =
     ((if even db then None
       else Some \<lparr>a_ID = int db, a_PID = 1, a_Repo = repo, a_Tag = tag, a_Digest = [],
                  a_Kind = ''Docker-Image'', a_CreationTime = db, a_PushTime = db\<rparr>,
       None), Suc db)"

text \<open>A project manager whose lookup fails for every project but one.\<close>

definition failing_env :: "nat policy_env" where
  "failing_env =
     \<lparr>pm_Get = (\<lambda>name. if name = ''library'' then Inr 1 else Inl (ErrOther ''db down'')),
      project_ContentTrustEnabled = (\<lambda>p. False),
      project_ReuseSysCVEWhitelist = (\<lambda>p. True),
      project_VulPrevented = (\<lambda>p. False),
      project_Severity = (\<lambda>p. ''low''),
      project_ProjectID = (\<lambda>p. int p),
      mgr_GetSys = Inr CVEWhitelist_zero,
      mgr_Get = (\<lambda>i. Inr CVEWhitelist_zero),
      ParseClairSev = (\<lambda>s. SevLow)\<rparr>"

text \<open>A push of a manifest whose body is not a JSON document.\<close>

definition push_request :: Request where
  "push_request =
     \<lparr>Method = ''PUT'', Path = ''/v2/a/b/manifests/latest'',
      Header = (\<lambda>k. if k = ''Content-Type'' then [schema2_MediaTypeManifest] else []),
      Body = Some (Reader ''not json'' None)\<rparr>"

definition failing_decoder :: parse_env where
  "failing_decoder =
     \<lparr>validate = digest_Validate,
      Unmarshal_Manifest = (\<lambda>b. Inl (ErrOther ''invalid character'')),
      Unmarshal_Descriptor = (\<lambda>b. Inl (ErrOther ''cannot unmarshal'')),
      GetProjectByName = (\<lambda>n. Inr None)\<rparr>"

section \<open>Properties\<close>

subsection \<open>Joining\<close>

lemma Join_Cons: "Join (x # xs) sep = x @ concat (map (\<lambda>s. sep @ s) xs)"
  by (induction xs arbitrary: x) simp_all

lemma Join_append_Cons:
  "Join (x # xs @ ys) sep = Join (x # xs) sep @ concat (map (\<lambda>s. sep @ s) ys)"
  by (simp add: Join_Cons)

lemma ParseRepository_split:
  assumes "CHR ''/'' \<notin> set p"
  shows "ParseRepository (p @ CHR ''/'' # rest) = (p, rest)"
proof -
  have "takeWhile (\<lambda>c. c \<noteq> CHR ''/'') (p @ CHR ''/'' # rest) = p"
    using assms by (induction p) auto
  then show ?thesis
    by (simp add: ParseRepository_def Let_def)
qed

subsection \<open>Mutex keys of manifests\<close>

text \<open>
  C1. Two manifest infos with the same repository and the same non-empty tag have the
  same mutex key for the same suffix arguments, whatever their digests are. With an empty
  tag the key is \<open>quota:<project>:manifest:<digest>\<close>, with a non-empty tag it is
  \<open>quota:<project>:manifest:<tag>\<close>; in both cases each suffix segment follows in argument
  order, each after a colon.
\<close>

theorem ManifestInfo_MutexKey_deterministic:
  "(Repository a = Repository b \<and> Tag a = Tag b \<and> Tag a \<noteq> [] \<longrightarrow>
      ManifestInfo_MutexKey a suffix = ManifestInfo_MutexKey b suffix)
   \<and> (Tag a = [] \<longrightarrow>
        ManifestInfo_MutexKey a suffix =
          ''quota:'' @ fst (ParseRepository (Repository a)) @ '':manifest:'' @ Digest a
            @ concat (map (\<lambda>s. '':'' @ s) suffix))
   \<and> (Tag a \<noteq> [] \<longrightarrow>
        ManifestInfo_MutexKey a suffix =
          ''quota:'' @ fst (ParseRepository (Repository a)) @ '':manifest:'' @ Tag a
            @ concat (map (\<lambda>s. '':'' @ s) suffix))"
  by (simp add: ManifestInfo_MutexKey_def Let_def Join_Cons split: prod.splits)

theorem ManifestInfo_MutexKey_deterministic_witness:
  "ManifestInfo_MutexKey
     (ManifestInfo_zero\<lparr>Repository := ''p/r'', Tag := ''v1'', Digest := ''sha256:aa''\<rparr>)
     [''count'']
   = ManifestInfo_MutexKey
     (ManifestInfo_zero\<lparr>Repository := ''p/r'', Tag := ''v1'', Digest := ''sha256:bb''\<rparr>)
     [''count'']
   \<and> ManifestInfo_MutexKey
     (ManifestInfo_zero\<lparr>Repository := ''p/r'', Digest := ''sha256:bb''\<rparr>) [''count'']
     = ''quota:p:manifest:sha256:bb:count''
   \<and> ManifestInfo_MutexKey
     (ManifestInfo_zero\<lparr>Repository := ''p/r'', Tag := ''v1'', Digest := ''sha256:bb''\<rparr>)
     [''count''] = ''quota:p:manifest:v1:count''"
  using ManifestInfo_MutexKey_deterministic
    [of "ManifestInfo_zero\<lparr>Repository := ''p/r'', Tag := ''v1'', Digest := ''sha256:aa''\<rparr>"
        "ManifestInfo_zero\<lparr>Repository := ''p/r'', Tag := ''v1'', Digest := ''sha256:bb''\<rparr>"
        "[''count'']"]
    ManifestInfo_MutexKey_deterministic
    [of "ManifestInfo_zero\<lparr>Repository := ''p/r'', Digest := ''sha256:bb''\<rparr>"
        "ManifestInfo_zero" "[''count'']"]
    ManifestInfo_MutexKey_deterministic
    [of "ManifestInfo_zero\<lparr>Repository := ''p/r'', Tag := ''v1'', Digest := ''sha256:bb''\<rparr>"
        "ManifestInfo_zero" "[''count'']"]
  by (simp add: ManifestInfo_zero_def ParseRepository_def)

subsection \<open>Mutex keys of blobs and chart versions\<close>

text \<open>
  C7. Every key is the colon-join of \<open>quota\<close>, a project-name segment, a kind and an
  identity, followed by the suffix segments in order. For a repository \<open>p/rest\<close> whose
  first component \<open>p\<close> has no slash, \<^verbatim>\<open>BlobInfo.MutexKey\<close> and
  \<^verbatim>\<open>ManifestInfo.BlobMutexKey\<close> give \<open>quota:p:blob:<digest>\<close>; the key of a chart
  version is \<open>quota:<namespace>:chart:<chart-name>:version:<version>\<close>, with the
  namespace field as it is.
\<close>

theorem MutexKey_shape:
  "(bi_Repository info = p @ CHR ''/'' # rest \<and> CHR ''/'' \<notin> set p \<longrightarrow>
      BlobInfo_MutexKey info suffix =
        ''quota:'' @ p @ '':blob:'' @ bi_Digest info @ concat (map (\<lambda>s. '':'' @ s) suffix))
   \<and> (Repository m = p @ CHR ''/'' # rest \<and> CHR ''/'' \<notin> set p \<longrightarrow>
      ManifestInfo_BlobMutexKey m blob suffix =
        ''quota:'' @ p @ '':blob:'' @ b_Digest blob @ concat (map (\<lambda>s. '':'' @ s) suffix))
   \<and> ChartVersionInfo_MutexKey c suffix =
        ''quota:'' @ cv_Namespace c @ '':chart:'' @ cv_ChartName c @ '':version:''
          @ cv_Version c @ concat (map (\<lambda>s. '':'' @ s) suffix)"
  by (auto simp: BlobInfo_MutexKey_def ManifestInfo_BlobMutexKey_def
      ChartVersionInfo_MutexKey_def Let_def Join_Cons ParseRepository_split)

theorem MutexKey_shape_witness:
  "BlobInfo_MutexKey (BlobInfo_zero\<lparr>bi_Repository := ''library/nginx'', bi_Digest := ''sha256:ab''\<rparr>)
     [''size'', ''x''] = ''quota:library:blob:sha256:ab:size:x''
   \<and> ManifestInfo_BlobMutexKey (ManifestInfo_zero\<lparr>Repository := ''library/nginx''\<rparr>)
     \<lparr>b_Digest = ''sha256:cd'', b_ContentType = [], b_Size = 0\<rparr> [''size'', ''x'']
     = ''quota:library:blob:sha256:cd:size:x''
   \<and> ChartVersionInfo_MutexKey
     \<lparr>cv_ProjectID = 1, cv_Namespace = ''library'', cv_ChartName = ''redis'',
      cv_Version = ''1.0''\<rparr> [''size'', ''x''] = ''quota:library:chart:redis:version:1.0:size:x''"
  using MutexKey_shape
    [of "BlobInfo_zero\<lparr>bi_Repository := ''library/nginx'', bi_Digest := ''sha256:ab''\<rparr>"
        "''library''" "''nginx''" "[''size'', ''x'']"
        "ManifestInfo_zero\<lparr>Repository := ''library/nginx''\<rparr>"
        "\<lparr>b_Digest = ''sha256:cd'', b_ContentType = [], b_Size = 0\<rparr>"
        "\<lparr>cv_ProjectID = 1, cv_Namespace = ''library'', cv_ChartName = ''redis'',
      cv_Version = ''1.0''\<rparr>"]
  by (simp add: BlobInfo_zero_def ManifestInfo_zero_def)

subsection \<open>Memoized queries\<close>

lemma calls_fixed:
  assumes "\<And>c. f c st = (g c, st)"
  shows "calls f cs st = (map g cs, st)"
  using assms by (induction cs) simp_all

lemma BlobExists_first:
  "\<not> blobExistOnce info \<Longrightarrow>
   BlobInfo_BlobExists q (info, db) =
     (fst (q (bi_ProjectID info) (bi_Digest info) db),
      (info\<lparr>blobExist := fst (fst (q (bi_ProjectID info) (bi_Digest info) db)),
            blobExistErr := snd (fst (q (bi_ProjectID info) (bi_Digest info) db)),
            blobExistOnce := True\<rparr>,
       snd (q (bi_ProjectID info) (bi_Digest info) db)))"
  by (simp add: BlobInfo_BlobExists_def split: prod.splits)

lemma BlobExists_later:
  "blobExistOnce info \<Longrightarrow>
   BlobInfo_BlobExists q (info, db) = ((blobExist info, blobExistErr info), (info, db))"
  by (simp add: BlobInfo_BlobExists_def)

lemma ManifestExists_first:
  "\<not> manifestExistOnce info \<Longrightarrow>
   ManifestInfo_ManifestExists q (info, db) =
     ((fst (fst (q (ProjectID info) (Digest info) db)) > 0,
       snd (fst (q (ProjectID info) (Digest info) db))),
      (info\<lparr>manifestExist := fst (fst (q (ProjectID info) (Digest info) db)) > 0,
            manifestExistErr := snd (fst (q (ProjectID info) (Digest info) db)),
            manifestExistOnce := True\<rparr>,
       snd (q (ProjectID info) (Digest info) db)))"
  by (simp add: ManifestInfo_ManifestExists_def split: prod.splits)

lemma ManifestExists_later:
  "manifestExistOnce info \<Longrightarrow>
   ManifestInfo_ManifestExists q (info, db) =
     ((manifestExist info, manifestExistErr info), (info, db))"
  by (simp add: ManifestInfo_ManifestExists_def)

lemma fetchArtifact_first:
  "\<not> artifactOnce info \<Longrightarrow>
   ManifestInfo_fetchArtifact q (info, db) =
     (fst (q (Repository info) (Tag info) db),
      (info\<lparr>artifact := fst (fst (q (Repository info) (Tag info) db)),
            artifactErr := snd (fst (q (Repository info) (Tag info) db)),
            artifactOnce := True\<rparr>,
       snd (q (Repository info) (Tag info) db)))"
  by (simp add: ManifestInfo_fetchArtifact_def split: prod.splits)

lemma fetchArtifact_later:
  "artifactOnce info \<Longrightarrow>
   ManifestInfo_fetchArtifact q (info, db) = ((artifact info, artifactErr info), (info, db))"
  by (simp add: ManifestInfo_fetchArtifact_def)

lemma answer_frame:
  "answer (info\<lparr>artifact := x, artifactErr := y, artifactOnce := z\<rparr>) a e c = answer info a e c"
  by (cases c) (simp_all add: answer_def)

lemma accessor_later:
  "artifactOnce info \<Longrightarrow>
   artifact_accessor q c (info, db) = (answer info (artifact info) (artifactErr info) c, (info, db))"
  by (cases c; cases "artifact info")
    (simp_all add: artifact_accessor_def ManifestInfo_IsNewTag_def ManifestInfo_Artifact_def
      fetchArtifact_later answer_def Let_def)

lemma accessor_first:
  assumes "\<not> artifactOnce info"
  shows "artifact_accessor q c (info, db) =
     (answer info (fst (fst (q (Repository info) (Tag info) db)))
                  (snd (fst (q (Repository info) (Tag info) db))) c,
      (info\<lparr>artifact := fst (fst (q (Repository info) (Tag info) db)),
            artifactErr := snd (fst (q (Repository info) (Tag info) db)),
            artifactOnce := True\<rparr>,
       snd (q (Repository info) (Tag info) db)))"
proof -
  obtain a e db1 where q: "q (Repository info) (Tag info) db = ((a, e), db1)"
    by (metis surj_pair)
  show ?thesis
    using assms q
    by (cases c; cases a)
      (simp_all add: artifact_accessor_def ManifestInfo_IsNewTag_def ManifestInfo_Artifact_def
        fetchArtifact_first answer_def Let_def)
qed

lemma counting_fst: "fst (counting q x y (db, k)) = fst (q x y db)"
  and counting_snd: "snd (counting q x y (db, k)) = (snd (q x y db), Suc k)"
  by (simp_all add: counting_def split: prod.splits)

text \<open>
  C2. On a \<^verbatim>\<open>BlobInfo\<close> whose \<^verbatim>\<open>Once\<close> has not run, \<open>N > 0\<close> calls of \<^verbatim>\<open>BlobExists\<close> issue
  exactly one query to the store (the counter of queries goes up by one and the store is
  the one that query leaves), and every call returns the pair that query gave. The same
  holds for \<open>N > 0\<close> calls of \<^verbatim>\<open>ManifestExists\<close> on a \<^verbatim>\<open>ManifestInfo\<close>, with the count
  turned into \<open>count > 0\<close>, and for every non-empty sequence of calls of \<^verbatim>\<open>fetchArtifact\<close>,
  \<^verbatim>\<open>IsNewTag\<close> and \<^verbatim>\<open>Artifact\<close>, each of which returns what it derives from the pair of
  the one query.
\<close>

theorem memoized_exactly_once:
  "(0 < N \<and> \<not> blobExistOnce b \<longrightarrow>
      (let r = fst (HasBlobInProject (bi_ProjectID b) (bi_Digest b) db)
       in calls (\<lambda>u::unit. BlobInfo_BlobExists (counting HasBlobInProject)) (replicate N ()) (b, (db, k))
          = (replicate N r,
             (b\<lparr>blobExist := fst r, blobExistErr := snd r, blobExistOnce := True\<rparr>,
              (snd (HasBlobInProject (bi_ProjectID b) (bi_Digest b) db), Suc k)))))
   \<and> (0 < N \<and> \<not> manifestExistOnce m \<longrightarrow>
      (let r = fst (GetTotalOfArtifacts (ProjectID m) (Digest m) db)
       in calls (\<lambda>u::unit. ManifestInfo_ManifestExists (counting GetTotalOfArtifacts)) (replicate N ())
            (m, (db, k))
          = (replicate N (fst r > 0, snd r),
             (m\<lparr>manifestExist := fst r > 0, manifestExistErr := snd r, manifestExistOnce := True\<rparr>,
              (snd (GetTotalOfArtifacts (ProjectID m) (Digest m) db), Suc k)))))
   \<and> (cs \<noteq> [] \<and> \<not> artifactOnce m \<longrightarrow>
      (let r = fst (GetArtifact (Repository m) (Tag m) db)
       in calls (artifact_accessor (counting GetArtifact)) cs (m, (db, k))
          = (map (answer m (fst r) (snd r)) cs,
             (m\<lparr>artifact := fst r, artifactErr := snd r, artifactOnce := True\<rparr>,
              (snd (GetArtifact (Repository m) (Tag m) db), Suc k)))))"
proof (intro conjI impI)
  assume a: "0 < N \<and> \<not> blobExistOnce b"
  then obtain n where n: "N = Suc n" by (cases N) auto
  show "let r = fst (HasBlobInProject (bi_ProjectID b) (bi_Digest b) db)
       in calls (\<lambda>u::unit. BlobInfo_BlobExists (counting HasBlobInProject)) (replicate N ()) (b, (db, k))
          = (replicate N r,
             (b\<lparr>blobExist := fst r, blobExistErr := snd r, blobExistOnce := True\<rparr>,
              (snd (HasBlobInProject (bi_ProjectID b) (bi_Digest b) db), Suc k)))"
    using a unfolding n Let_def
    by (simp add: BlobExists_first counting_fst counting_snd
        calls_fixed [where g = "\<lambda>u. fst (HasBlobInProject (bi_ProjectID b) (bi_Digest b) db)"]
        BlobExists_later)
next
  assume a: "0 < N \<and> \<not> manifestExistOnce m"
  then obtain n where n: "N = Suc n" by (cases N) auto
  show "let r = fst (GetTotalOfArtifacts (ProjectID m) (Digest m) db)
       in calls (\<lambda>u::unit. ManifestInfo_ManifestExists (counting GetTotalOfArtifacts)) (replicate N ())
            (m, (db, k))
          = (replicate N (fst r > 0, snd r),
             (m\<lparr>manifestExist := fst r > 0, manifestExistErr := snd r, manifestExistOnce := True\<rparr>,
              (snd (GetTotalOfArtifacts (ProjectID m) (Digest m) db), Suc k)))"
    using a unfolding n Let_def
    by (simp add: ManifestExists_first counting_fst counting_snd
        calls_fixed [where g = "\<lambda>u. (fst (fst (GetTotalOfArtifacts (ProjectID m) (Digest m) db)) > 0,
           snd (fst (GetTotalOfArtifacts (ProjectID m) (Digest m) db)))"]
        ManifestExists_later)
next
  assume a: "cs \<noteq> [] \<and> \<not> artifactOnce m"
  then obtain c cs' where n: "cs = c # cs'" by (cases cs) auto
  let ?r = "fst (GetArtifact (Repository m) (Tag m) db)"
  let ?m' = "m\<lparr>artifact := fst ?r, artifactErr := snd ?r, artifactOnce := True\<rparr>"
  have later: "calls (artifact_accessor (counting GetArtifact)) cs' (?m', st)
      = (map (answer m (fst ?r) (snd ?r)) cs', (?m', st))" for st
    by (rule calls_fixed) (cases st, simp add: accessor_later answer_frame)
  show "let r = fst (GetArtifact (Repository m) (Tag m) db)
       in calls (artifact_accessor (counting GetArtifact)) cs (m, (db, k))
          = (map (answer m (fst r) (snd r)) cs,
             (m\<lparr>artifact := fst r, artifactErr := snd r, artifactOnce := True\<rparr>,
              (snd (GetArtifact (Repository m) (Tag m) db), Suc k)))"
    using a unfolding n Let_def
    by (simp add: accessor_first counting_fst counting_snd later)
qed

theorem memoized_exactly_once_witness:
  "calls (\<lambda>u::unit. BlobInfo_BlobExists (counting ticking_HasBlobInProject)) (replicate 3 ())
     (BlobInfo_zero, (0, 0))
   = ([(True, None), (True, None), (True, None)],
      (BlobInfo_zero\<lparr>blobExist := True, blobExistErr := None, blobExistOnce := True\<rparr>, (1, 1)))
   \<and> calls (\<lambda>u::unit. ManifestInfo_ManifestExists (counting ticking_GetTotalOfArtifacts))
       (replicate 3 ()) (ManifestInfo_zero, (0, 0))
     = ([(False, None), (False, None), (False, None)],
        (ManifestInfo_zero\<lparr>manifestExist := False, manifestExistErr := None,
           manifestExistOnce := True\<rparr>, (1, 1)))
   \<and> calls (artifact_accessor (counting ticking_GetArtifact))
       [Call_IsNewTag, Call_fetchArtifact, Call_IsNewTag] (ManifestInfo_zero, (0, 0))
     = ([NewTag True, Fetched None None, NewTag True],
        (ManifestInfo_zero\<lparr>artifact := None, artifactErr := None, artifactOnce := True\<rparr>,
         (1, 1)))"
  using memoized_exactly_once
    [of 3 BlobInfo_zero ticking_HasBlobInProject 0 0 ManifestInfo_zero
        ticking_GetTotalOfArtifacts "[Call_IsNewTag, Call_fetchArtifact, Call_IsNewTag]"
        ticking_GetArtifact]
  by (simp add: BlobInfo_zero_def ManifestInfo_zero_def ticking_HasBlobInProject_def
      ticking_GetTotalOfArtifacts_def ticking_GetArtifact_def answer_def Let_def
      numeral_3_eq_3)

subsection \<open>Synchronising blobs\<close>

text \<open>
  C6. \<^verbatim>\<open>SyncBlobs\<close> returns nil when the upsert of the store reports \<^verbatim>\<open>dao.ErrDupRows\<close>; it
  returns what the store returned in every other case, an error unchanged and nil for
  nil. The store is left as the upsert left it.
\<close>

theorem SyncBlobs_dup_rows:
  "(fst (sync (References info) db) = Some ErrDupRows \<longrightarrow>
      fst (ManifestInfo_SyncBlobs sync info db) = None)
   \<and> (fst (sync (References info) db) \<noteq> Some ErrDupRows \<longrightarrow>
      fst (ManifestInfo_SyncBlobs sync info db) = fst (sync (References info) db))
   \<and> (fst (sync (References info) db) = None \<longrightarrow>
      fst (ManifestInfo_SyncBlobs sync info db) = None)
   \<and> snd (ManifestInfo_SyncBlobs sync info db) = snd (sync (References info) db)"
  by (simp add: ManifestInfo_SyncBlobs_def split: prod.splits)

theorem SyncBlobs_dup_rows_witness:
  "fst (ManifestInfo_SyncBlobs (\<lambda>refs db. (Some ErrDupRows, Suc db)) ManifestInfo_zero (0::nat)) = None
   \<and> fst (ManifestInfo_SyncBlobs (\<lambda>refs db. (Some (ErrOther ''timeout''), db)) ManifestInfo_zero (0::nat))
       = Some (ErrOther ''timeout'')
   \<and> fst (ManifestInfo_SyncBlobs (\<lambda>refs db. (None, Suc db)) ManifestInfo_zero (0::nat)) = None"
  using SyncBlobs_dup_rows [of "\<lambda>refs db. (Some ErrDupRows, Suc db)" ManifestInfo_zero "0::nat"]
    SyncBlobs_dup_rows [of "\<lambda>refs db. (Some (ErrOther ''timeout''), db)" ManifestInfo_zero "0::nat"]
    SyncBlobs_dup_rows [of "\<lambda>refs db. (None, Suc db)" ManifestInfo_zero "0::nat"]
  by simp

subsection \<open>Policy checker\<close>

text \<open>
  C10. When the project manager's lookup of a project name fails with an error,
  \<^verbatim>\<open>ContentTrustEnabled\<close> returns true and \<^verbatim>\<open>VulnerablePolicy\<close> returns true, the severity
  \<^verbatim>\<open>SevUnknown\<close> and the zero whitelist, which has no item: the failure is answered with the
  most restrictive policy and no error is passed on.
\<close>

theorem policy_fails_closed:
  "pm_Get pc name = Inl err \<Longrightarrow>
     ContentTrustEnabled pc name = True
     \<and> VulnerablePolicy pc name = (True, SevUnknown, CVEWhitelist_zero)
     \<and> wl_Items (snd (snd (VulnerablePolicy pc name))) = []"
  by (simp add: ContentTrustEnabled_def VulnerablePolicy_def CVEWhitelist_zero_def)

theorem policy_fails_closed_witness:
  "pm_Get failing_env ''dev'' = Inl (ErrOther ''db down'')
   \<and> ContentTrustEnabled failing_env ''dev'' = True
   \<and> VulnerablePolicy failing_env ''dev'' = (True, SevUnknown, CVEWhitelist_zero)
   \<and> ContentTrustEnabled failing_env ''library'' = False"
proof -
  have h: "pm_Get failing_env ''dev'' = Inl (ErrOther ''db down'')"
    by (simp add: failing_env_def)
  show ?thesis
    using h policy_fails_closed [OF h]
    by (simp add: ContentTrustEnabled_def failing_env_def)
qed

subsection \<open>The body of a parsed request\<close>

lemma ReadAll_NewBuffer: "ReadAll (NewBuffer b) = ((b, None), Reader [] None)"
  by (simp add: ReadAll_def NewBuffer_def)

text \<open>
  C5. When \<^verbatim>\<open>ParseManifestInfoFromReq\<close> gets as far as reading the body and the read
  succeeds with the bytes \<open>body\<close>, then on every way out, whatever the two decodings and
  the project lookup give, it leaves the request with nothing changed but the body, which
  is a fresh buffer over \<open>body\<close>: reading it to the end yields \<open>body\<close> again.
\<close>

theorem ParseManifestInfoFromReq_restores_body:
  assumes "fst (MatchManifestURL req)"
    and "supported_media_type (Header_Get (Header req) ''Content-Type'')"
    and "Body req = Some rd"
    and "fst (ReadAll rd) = (body, None)"
  shows "snd (ParseManifestInfoFromReq env req) = req\<lparr>Body := Some (NewBuffer body)\<rparr>
         \<and> fst (ReadAll (NewBuffer body)) = (body, None)"
proof -
  obtain rd' where r: "ReadAll rd = ((body, None), rd')"
    using assms(4) by (cases "ReadAll rd") auto
  obtain repository reference where m: "MatchManifestURL req = (True, repository, reference)"
    using assms(1) by (cases "MatchManifestURL req") auto
  show ?thesis
    using assms(2,3) r m
    by (simp add: ParseManifestInfoFromReq_def ReadAll_NewBuffer Let_def split: sum.splits)
qed

lemma push_request_matches: "MatchManifestURL push_request = (True, ''a/b'', ''latest'')"
  unfolding push_request_def by code_simp

theorem ParseManifestInfoFromReq_restores_body_witness:
  "ParseManifestInfoFromReq failing_decoder push_request =
     (Inl (ErrOther ''invalid character''),
      push_request\<lparr>Body := Some (NewBuffer ''not json'')\<rparr>)
   \<and> fst (ReadAll (NewBuffer ''not json'')) = (''not json'', None)"
proof -
  have 1: "fst (MatchManifestURL push_request)"
    by (simp add: push_request_matches)
  have 2: "supported_media_type (Header_Get (Header push_request) ''Content-Type'')"
    by (simp add: push_request_def Header_Get_def supported_media_type_def)
  have 3: "Body push_request = Some (Reader ''not json'' None)"
    by (simp add: push_request_def)
  have 4: "fst (ReadAll (Reader ''not json'' None)) = (''not json'', None)"
    by (simp add: ReadAll_def)
  have "fst (ParseManifestInfoFromReq failing_decoder push_request)
          = Inl (ErrOther ''invalid character'')"
    using 2 3 
    by (simp add: ParseManifestInfoFromReq_def push_request_matches failing_decoder_def
        ReadAll_def Let_def)
  then show ?thesis
    using ParseManifestInfoFromReq_restores_body [OF 1 2 3 4, of failing_decoder]
    by (simp add: prod_eq_iff)
qed

subsection \<open>The matcher and the words of an expression\<close>

declare rmatch.simps(5) [simp del] rmatch.simps(7) [simp del]

lemmas rmatch_basic = rmatch.simps(1-4) rmatch.simps(6) rmatch.simps(8)

lemma in_rmatch_Star:
  "t' \<in> set (rmatch n (Star a) (s, c)) \<longleftrightarrow>
     t' = (s, c) \<or> (\<exists>s1 c1. (s1, c1) \<in> set (rmatch n a (s, c)) \<and> length s1 < length s
                       \<and> t' \<in> set (rmatch n (Star a) (s1, c1)))"
  by (subst rmatch.simps(5)) (auto split: if_splits)

lemma rmatch_Upto_0: "rmatch n (Upto a 0) (s, c) = [(s, c)]"
  by (subst rmatch.simps(7)) simp

lemma rmatch_Upto_Suc:
  "rmatch n (Upto a (Suc k)) (s, c) =
     concat (map (rmatch n (Upto a k)) (rmatch n a (s, c))) @ [(s, c)]"
  by (subst rmatch.simps(7)) simp

lemma in_rmatch_Upto_Suc:
  "t' \<in> set (rmatch n (Upto a (Suc k)) (s, c)) \<longleftrightarrow>
     t' = (s, c) \<or> (\<exists>t1. t1 \<in> set (rmatch n a (s, c)) \<and> t' \<in> set (rmatch n (Upto a k) t1))"
  unfolding rmatch_Upto_Suc by auto

lemma rmatch_sound:
  "plain r \<Longrightarrow> t' \<in> set (rmatch n r t) \<Longrightarrow>
     snd t' = snd t \<and> (\<exists>w. fst t = w @ fst t' \<and> matches r w)"
proof (induction n r t arbitrary: t' rule: rmatch.induct)
  case (1 n s c)
  then show ?case by simp
next
  case (2 n l s c)
  then have "take (length l) s = l" and "t' = (drop (length l) s, c)"
    by (auto split: if_splits)
  then show ?case
    by (metis append_take_drop_id fst_conv m_Lit snd_conv)
next
  case (3 n p s c)
  then show ?case
    by (auto split: list.splits if_splits intro: m_Cls)
next
  case (4 n a b t)
  then obtain t1 where t1: "t1 \<in> set (rmatch n a t)" and t': "t' \<in> set (rmatch n b t1)"
    by auto
  from 4 t1 have a: "snd t1 = snd t" "\<exists>u. fst t = u @ fst t1 \<and> matches a u" by auto
  from 4 t1 t' have b: "snd t' = snd t1" "\<exists>v. fst t1 = v @ fst t' \<and> matches b v" by auto
  from a b show ?case
    by (metis append.assoc m_Seq)
next
  case (5 n a s c)
  show ?case
  proof (cases "t' = (s, c)")
    case True
    then show ?thesis by (auto intro: m_Star0)
  next
    case False
    with 5(4) obtain s1 c1 where t1: "(s1, c1) \<in> set (rmatch n a (s, c))"
      and less: "length s1 < length s" and t': "t' \<in> set (rmatch n (Star a) (s1, c1))"
      by (auto simp: in_rmatch_Star [of t' n a s c])
    from 5(1)[OF _ t1] 5(3) have a: "c1 = c" "\<exists>u. s = u @ s1 \<and> matches a u" by auto
    from 5(2)[OF t1 refl less _ t'] 5(3)
    have b: "snd t' = c1" "\<exists>v. s1 = v @ fst t' \<and> matches (Star a) v" by auto
    from a b show ?thesis
      by (metis append.assoc fst_conv m_Star snd_conv)
  qed
next
  case (6 n a t)
  then obtain t1 where t1: "t1 \<in> set (rmatch n a t)" and t': "t' \<in> set (rmatch n (Star a) t1)"
    by auto
  from 6 t1 have a: "snd t1 = snd t" "\<exists>u. fst t = u @ fst t1 \<and> matches a u" by auto
  from 6(2)[OF t1 _ t'] 6(3) have b: "snd t' = snd t1" "\<exists>v. fst t1 = v @ fst t' \<and> matches (Star a) v"
    by auto
  from a b show ?case
    by (metis append.assoc m_Plus)
next
  case (7 n a k s c)
  show ?case
  proof (cases k)
    case 0
    with 7(4) show ?thesis by (auto simp: rmatch_Upto_0 intro: m_Upto0)
  next
    case (Suc k')
    show ?thesis
    proof (cases "t' = (s, c)")
      case True
      then show ?thesis by (auto intro: m_Upto0)
    next
      case False
      with 7(4) obtain t1 where t1: "t1 \<in> set (rmatch n a (s, c))"
        and t': "t' \<in> set (rmatch n (Upto a k') t1)"
        unfolding Suc in_rmatch_Upto_Suc by blast
      from 7(1)[OF _ _ t1] Suc 7(3) have a: "snd t1 = c" "\<exists>u. s = u @ fst t1 \<and> matches a u"
        by auto
      from 7(2)[OF _ t1 _] t' Suc 7(3)
      have b: "snd t' = snd t1" "\<exists>v. fst t1 = v @ fst t' \<and> matches (Upto a k') v"
        by auto
      from a b show ?thesis
        unfolding Suc by (metis append.assoc fst_conv m_Upto snd_conv)
    qed
  qed
next
  case (8 n i a s c)
  then show ?case by simp
qed

lemma in_rmatch_Seq:
  "t' \<in> set (rmatch n (Seq a b) t) \<longleftrightarrow>
     (\<exists>t1. t1 \<in> set (rmatch n a t) \<and> t' \<in> set (rmatch n b t1))"
  by auto

lemma in_rmatch_Plus:
  "t' \<in> set (rmatch n (Plus a) t) \<longleftrightarrow>
     (\<exists>t1. t1 \<in> set (rmatch n a t) \<and> t' \<in> set (rmatch n (Star a) t1))"
  by auto

lemma rmatch_complete:
  "matches r w \<Longrightarrow> plain r \<Longrightarrow> (rest, c) \<in> set (rmatch n r (w @ rest, c))"
proof (induction r w arbitrary: rest rule: matches.induct)
  case (m_Lit l)
  then show ?case by simp
next
  case (m_Cls p x)
  then show ?case by simp
next
  case (m_Seq a u b v)
  then have "(v @ rest, c) \<in> set (rmatch n a (u @ v @ rest, c))"
    and "(rest, c) \<in> set (rmatch n b (v @ rest, c))" by auto
  then have "\<exists>t1. t1 \<in> set (rmatch n a (u @ v @ rest, c)) \<and> (rest, c) \<in> set (rmatch n b t1)"
    by (intro exI [of _ "(v @ rest, c)"] conjI)
  then show ?case
    by (simp only: in_rmatch_Seq append.assoc)
next
  case (m_Star0 a)
  then show ?case by (subst in_rmatch_Star) simp
next
  case (m_Star a u v)
  show ?case
  proof (cases "u = []")
    case True
    with m_Star show ?thesis by simp
  next
    case False
    from m_Star have "(v @ rest, c) \<in> set (rmatch n a (u @ v @ rest, c))"
      and "(rest, c) \<in> set (rmatch n (Star a) (v @ rest, c))" by auto
    moreover from False have "length (v @ rest) < length (u @ v @ rest)" by simp
    ultimately have "\<exists>s1 c1. (s1, c1) \<in> set (rmatch n a (u @ v @ rest, c))
                \<and> length s1 < length (u @ v @ rest)
                \<and> (rest, c) \<in> set (rmatch n (Star a) (s1, c1))"
      by (intro exI [of _ "v @ rest"] exI [of _ c] conjI)
    then show ?thesis
      unfolding append.assoc by (subst in_rmatch_Star) (rule disjI2)
  qed
next
  case (m_Plus a u v)
  then have "(v @ rest, c) \<in> set (rmatch n a (u @ v @ rest, c))"
    and "(rest, c) \<in> set (rmatch n (Star a) (v @ rest, c))" by auto
  then have "\<exists>t1. t1 \<in> set (rmatch n a (u @ v @ rest, c))
                \<and> (rest, c) \<in> set (rmatch n (Star a) t1)"
    by (intro exI [of _ "(v @ rest, c)"] conjI)
  then show ?case
    by (simp only: in_rmatch_Plus append.assoc)
next
  case (m_Upto0 a k)
  then show ?case by (cases k) (simp_all add: rmatch_Upto_0 rmatch_Upto_Suc)
next
  case (m_Upto a u k v)
  then have "(v @ rest, c) \<in> set (rmatch n a (u @ v @ rest, c))"
    and "(rest, c) \<in> set (rmatch n (Upto a k) (v @ rest, c))" by auto
  then have "\<exists>t1. t1 \<in> set (rmatch n a (u @ v @ rest, c))
                \<and> (rest, c) \<in> set (rmatch n (Upto a k) t1)"
    by (intro exI [of _ "(v @ rest, c)"] conjI)
  then show ?case
    by (simp only: in_rmatch_Upto_Suc append.assoc) blast
qed


lemma try_offsets_Bol_later:
  "\<forall>k\<in>set ks. 0 < k \<and> k \<le> length s \<Longrightarrow> try_offsets (Seq Bol r) s ks = None"
  by (induction ks) auto

lemma try_offsets_Bol:
  "try_offsets (Seq Bol r) s [0..<Suc (length s)] =
     (case rmatch (length s) r (s, Map.empty) of [] \<Rightarrow> None | t # _ \<Rightarrow> Some (0, t))"
proof -
  have split: "[0..<Suc (length s)] = 0 # [Suc 0..<Suc (length s)]"
    by (rule upt_conv_Cons) simp
  have later: "try_offsets (Seq Bol r) s [Suc 0..<Suc (length s)] = None"
    by (rule try_offsets_Bol_later) auto
  show ?thesis
    unfolding split try_offsets.simps later
    by (simp split: list.splits)
qed

lemma MatchManifestURL_threads:
  "MatchManifestURL req =
     (case url_threads (Path req) of
        [] \<Rightarrow> (False, [], [])
      | (rest, c) # _ \<Rightarrow>
          (True, TrimSuffix (case c 1 of None \<Rightarrow> [] | Some g \<Rightarrow> g) ''/'',
           (case c 2 of None \<Rightarrow> [] | Some g \<Rightarrow> g)))"
proof -
  have n: "NumSubexp manifestURLRe = 2"
    by (simp add: manifestURLRe_def repository_re_def reference_re_def)
  have u: "[1..<Suc 2] = [1, 2]"
    by (simp add: upt_rec)
  show ?thesis
    unfolding MatchManifestURL_def FindStringSubmatch_def n u
    unfolding manifestURLRe_def try_offsets_Bol url_threads_def
    by (simp split: list.splits prod.splits del: rmatch_basic)
qed

lemma plain_repository_re: "plain repository_re"
  and plain_reference_re: "plain reference_re"
  by (simp_all add: repository_re_def reference_re_def)

lemma in_rmatch_Lit:
  "t' \<in> set (rmatch n (Lit l) (s, c)) \<longleftrightarrow> (\<exists>rest. s = l @ rest \<and> t' = (rest, c))"
proof (cases "take (length l) s = l")
  case True
  then have "s = l @ drop (length l) s"
    by (metis append_take_drop_id)
  with True show ?thesis by auto
next
  case False
  then show ?thesis by auto
qed

lemma in_rmatch_plain:
  assumes "plain r"
  shows "t' \<in> set (rmatch n r (s, c)) \<longleftrightarrow> (\<exists>w rest. s = w @ rest \<and> matches r w \<and> t' = (rest, c))"
proof
  assume "t' \<in> set (rmatch n r (s, c))"
  from rmatch_sound [OF assms this] show "\<exists>w rest. s = w @ rest \<and> matches r w \<and> t' = (rest, c)"
    by (cases t') auto
next
  assume "\<exists>w rest. s = w @ rest \<and> matches r w \<and> t' = (rest, c)"
  then show "t' \<in> set (rmatch n r (s, c))"
    using rmatch_complete [OF _ assms] by blast
qed

lemma in_rmatch_Cap_plain:
  assumes "plain r"
  shows "t' \<in> set (rmatch n (Cap i r) (s, c)) \<longleftrightarrow>
           (\<exists>w rest. s = w @ rest \<and> matches r w \<and> t' = (rest, c(i \<mapsto> w)))"
proof
  assume "t' \<in> set (rmatch n (Cap i r) (s, c))"
  then obtain s1 c1 where t1: "(s1, c1) \<in> set (rmatch n r (s, c))"
    and t': "t' = (s1, c1(i \<mapsto> take (length s - length s1) s))"
    by auto
  from t1 obtain w where "s = w @ s1" "matches r w" "c1 = c"
    unfolding in_rmatch_plain [OF assms] by auto
  with t' show "\<exists>w rest. s = w @ rest \<and> matches r w \<and> t' = (rest, c(i \<mapsto> w))"
    by auto
next
  assume "\<exists>w rest. s = w @ rest \<and> matches r w \<and> t' = (rest, c(i \<mapsto> w))"
  then obtain w rest where s: "s = w @ rest" and w: "matches r w" and t': "t' = (rest, c(i \<mapsto> w))"
    by auto
  from s w have "(rest, c) \<in> set (rmatch n r (s, c))"
    unfolding in_rmatch_plain [OF assms] by auto
  then have "(rest, c(i \<mapsto> take (length s - length rest) s)) \<in> set (rmatch n (Cap i r) (s, c))"
    by force
  with s t' show "t' \<in> set (rmatch n (Cap i r) (s, c))"
    by simp
qed

lemma in_rmatch_Lit_thread:
  "t' \<in> set (rmatch n (Lit l) t) \<longleftrightarrow> (\<exists>rest. fst t = l @ rest \<and> t' = (rest, snd t))"
  using in_rmatch_Lit [of t' n l "fst t" "snd t"] by simp

lemma in_rmatch_Cap_thread:
  "plain r \<Longrightarrow> t' \<in> set (rmatch n (Cap i r) t) \<longleftrightarrow>
     (\<exists>w rest. fst t = w @ rest \<and> matches r w \<and> t' = (rest, (snd t)(i \<mapsto> w)))"
  using in_rmatch_Cap_plain [of r t' n i "fst t" "snd t"] by simp

lemma in_url_threads:
  "t \<in> set (url_threads s) \<longleftrightarrow>
     (\<exists>g1 g2 rest. s = ''/v2/'' @ g1 @ ''manifests/'' @ g2 @ rest
        \<and> matches repository_re g1 \<and> matches reference_re g2
        \<and> t = (rest, [1 \<mapsto> g1, 2 \<mapsto> g2]))"
  (is "?L \<longleftrightarrow> ?R")
proof
  assume ?L
  then obtain t1 t2 t3 where
    1: "t1 \<in> set (rmatch (length s) (Lit ''/v2/'') (s, Map.empty))" and
    2: "t2 \<in> set (rmatch (length s) (Cap 1 repository_re) t1)" and
    3: "t3 \<in> set (rmatch (length s) (Lit ''manifests/'') t2)" and
    4: "t \<in> set (rmatch (length s) (Cap 2 reference_re) t3)"
    unfolding url_threads_def in_rmatch_Seq by blast
  from 1 obtain r1 where r1: "s = ''/v2/'' @ r1" "t1 = (r1, Map.empty)"
    unfolding in_rmatch_Lit_thread by auto
  from 2 r1 obtain g1 r2 where r2: "r1 = g1 @ r2" "matches repository_re g1"
    "t2 = (r2, [1 \<mapsto> g1])"
    unfolding in_rmatch_Cap_thread [OF plain_repository_re] by auto
  from 3 r2 obtain r3 where r3: "r2 = ''manifests/'' @ r3" "t3 = (r3, [1 \<mapsto> g1])"
    unfolding in_rmatch_Lit_thread by auto
  from 4 r3 obtain g2 rest where r4: "r3 = g2 @ rest" "matches reference_re g2"
    "t = (rest, [1 \<mapsto> g1, 2 \<mapsto> g2])"
    unfolding in_rmatch_Cap_thread [OF plain_reference_re] by auto
  from r1 r2 r3 r4 show ?R by auto
next
  assume ?R
  then obtain g1 g2 rest where s: "s = ''/v2/'' @ g1 @ ''manifests/'' @ g2 @ rest"
    and g1: "matches repository_re g1" and g2: "matches reference_re g2"
    and t: "t = (rest, [1 \<mapsto> g1, 2 \<mapsto> g2])"
    by blast
  let ?n = "length s"
  have 1: "(g1 @ ''manifests/'' @ g2 @ rest, Map.empty) \<in> set (rmatch ?n (Lit ''/v2/'') (s, Map.empty))"
    unfolding in_rmatch_Lit_thread using s by simp
  have 2: "(''manifests/'' @ g2 @ rest, [1 \<mapsto> g1])
             \<in> set (rmatch ?n (Cap 1 repository_re) (g1 @ ''manifests/'' @ g2 @ rest, Map.empty))"
    unfolding in_rmatch_Cap_thread [OF plain_repository_re] using g1 by auto
  have 3: "(g2 @ rest, [1 \<mapsto> g1])
             \<in> set (rmatch ?n (Lit ''manifests/'') (''manifests/'' @ g2 @ rest, [1 \<mapsto> g1]))"
    unfolding in_rmatch_Lit_thread by simp
  have 4: "t \<in> set (rmatch ?n (Cap 2 reference_re) (g2 @ rest, [1 \<mapsto> g1]))"
    unfolding in_rmatch_Cap_thread [OF plain_reference_re] using g2 t by auto
  from 1 2 3 4 show ?L
    unfolding url_threads_def in_rmatch_Seq by blast
qed

subsection \<open>Words of the parts of the manifest expression\<close>

inductive_cases matches_LitE: "matches (Lit l) w"
inductive_cases matches_ClsE: "matches (Cls p) w"
inductive_cases matches_SeqE: "matches (Seq a b) w"
inductive_cases matches_PlusE: "matches (Plus a) w"

lemma matches_Lit_iff: "matches (Lit l) w \<longleftrightarrow> w = l"
  by (auto intro: m_Lit elim: matches_LitE)

lemma matches_Cls_iff: "matches (Cls p) w \<longleftrightarrow> (\<exists>x. w = [x] \<and> p x)"
  by (auto intro: m_Cls elim: matches_ClsE)

lemma matches_Seq_iff:
  "matches (Seq a b) w \<longleftrightarrow> (\<exists>u v. w = u @ v \<and> matches a u \<and> matches b v)"
  by (blast intro: m_Seq elim: matches_SeqE)

lemma matches_Plus_iff:
  "matches (Plus a) w \<longleftrightarrow> (\<exists>u v. w = u @ v \<and> matches a u \<and> matches (Star a) v)"
  by (blast intro: m_Plus elim: matches_PlusE)

lemma single_prefix:
  "(\<exists>u v. w = u @ v \<and> (\<exists>x. u = [x] \<and> P x) \<and> Q v) \<longleftrightarrow> (\<exists>x xs. w = x # xs \<and> P x \<and> Q xs)"
proof
  assume "\<exists>u v. w = u @ v \<and> (\<exists>x. u = [x] \<and> P x) \<and> Q v"
  then show "\<exists>x xs. w = x # xs \<and> P x \<and> Q xs" by auto
next
  assume "\<exists>x xs. w = x # xs \<and> P x \<and> Q xs"
  then obtain x xs where "w = [x] @ xs" "P x" "Q xs" by auto
  then show "\<exists>u v. w = u @ v \<and> (\<exists>x. u = [x] \<and> P x) \<and> Q v" by blast
qed

lemma Star_Cls_sound: "matches r w \<Longrightarrow> r = Star (Cls p) \<Longrightarrow> list_all p w"
  by (induction rule: matches.induct) (auto simp: matches_Cls_iff)

lemma Star_Cls_complete: "list_all p w \<Longrightarrow> matches (Star (Cls p)) w"
proof (induction w)
  case Nil
  show ?case by (rule m_Star0)
next
  case (Cons x w)
  then have "matches (Cls p) [x]" "matches (Star (Cls p)) w"
    by (auto intro: m_Cls)
  then have "matches (Star (Cls p)) ([x] @ w)" by (rule m_Star)
  then show ?case by simp
qed

lemma matches_Star_Cls_iff: "matches (Star (Cls p)) w \<longleftrightarrow> list_all p w"
  using Star_Cls_sound Star_Cls_complete by blast

lemma matches_Plus_Cls_iff: "matches (Plus (Cls p)) w \<longleftrightarrow> w \<noteq> [] \<and> list_all p w"
  unfolding matches_Plus_iff matches_Cls_iff matches_Star_Cls_iff single_prefix
  by (cases w) auto

lemma Upto_Cls_sound:
  "matches r w \<Longrightarrow> r = Upto (Cls p) k \<Longrightarrow> list_all p w \<and> length w \<le> k"
  by (induction arbitrary: k rule: matches.induct) (auto simp: matches_Cls_iff)

lemma Upto_Cls_complete: "list_all p w \<Longrightarrow> length w \<le> k \<Longrightarrow> matches (Upto (Cls p) k) w"
proof (induction w arbitrary: k)
  case Nil
  show ?case by (rule m_Upto0)
next
  case (Cons x w)
  then obtain k' where k: "k = Suc k'" by (cases k) auto
  with Cons have "matches (Cls p) [x]" "matches (Upto (Cls p) k') w"
    by (auto intro: m_Cls)
  then have "matches (Upto (Cls p) (Suc k')) ([x] @ w)" by (rule m_Upto)
  then show ?case by (simp add: k)
qed

lemma matches_Upto_Cls_iff:
  "matches (Upto (Cls p) k) w \<longleftrightarrow> list_all p w \<and> length w \<le> k"
  using Upto_Cls_sound Upto_Cls_complete by blast

lemma matches_reference_re: "matches reference_re w \<longleftrightarrow> is_reference w"
  unfolding reference_re_def matches_Seq_iff matches_Cls_iff matches_Upto_Cls_iff is_reference_def
    single_prefix
  by (cases w) auto


lemma repository_re_eq: "repository_re = Plus segment_slash_re"
  by (simp add: repository_re_def segment_slash_re_def block_re_def)

lemma separator_not_alnum: "separator x \<Longrightarrow> \<not> lower_alnum x"
  by (auto simp: separator_def lower_alnum_def in_range_def)

lemma slash_not_alnum: "\<not> lower_alnum CHR ''/''"
  and slash_not_separator: "\<not> separator CHR ''/''"
  by (simp_all add: separator_def lower_alnum_def in_range_def)

lemma is_segment_Cons:
  "is_segment (x # t) \<longleftrightarrow>
     lower_alnum x \<and> (t = [] \<or> (separator (hd t) \<and> is_segment (tl t))
                        \<or> (\<not> separator (hd t) \<and> is_segment t))"
  by (cases t) auto

lemma is_segment_run:
  assumes "list_all lower_alnum a" and "a \<noteq> []"
    and "b = [] \<or> (\<exists>d b'. b = d # b' \<and> separator d \<and> is_segment b')"
  shows "is_segment (a @ b)"
  using assms(1,2)
proof (induction a)
  case Nil
  then show ?case by simp
next
  case (Cons x a)
  show ?case
  proof (cases "a = []")
    case True
    with Cons.prems assms(3) show ?thesis
      by (auto simp: is_segment_Cons)
  next
    case False
    with Cons have "is_segment (a @ b)" "lower_alnum (hd (a @ b))" "lower_alnum x"
      by (auto simp: neq_Nil_conv)
    then show ?thesis
      using False by (auto simp: is_segment_Cons separator_not_alnum)
  qed
qed

lemma Star_block_sound:
  "matches r b \<Longrightarrow> r = Star block_re \<Longrightarrow>
     b = [] \<or> (\<exists>d b'. b = d # b' \<and> separator d \<and> is_segment b')"
proof (induction rule: matches.induct)
  case (m_Star a u v)
  then have "matches block_re u" by simp
  then obtain d run where u: "u = d # run" "separator d" "run \<noteq> []" "list_all lower_alnum run"
    unfolding block_re_def matches_Seq_iff matches_Cls_iff matches_Plus_Cls_iff by auto
  from m_Star have "v = [] \<or> (\<exists>d b'. v = d # b' \<and> separator d \<and> is_segment b')"
    by simp
  with u have "is_segment (run @ v)"
    by (intro is_segment_run)
  with u show ?case by simp
qed simp_all

lemma segment_sound:
  "matches (Plus (Cls lower_alnum)) a \<Longrightarrow> matches (Star block_re) b \<Longrightarrow> is_segment (a @ b)"
  using Star_block_sound [of "Star block_re" b]
  by (intro is_segment_run) (auto simp: matches_Plus_Cls_iff)

lemma segment_complete:
  "is_segment w \<Longrightarrow>
     \<exists>a b. w = a @ b \<and> matches (Plus (Cls lower_alnum)) a \<and> matches (Star block_re) b"
proof (induction w rule: is_segment.induct)
  case 1
  then show ?case by simp
next
  case (2 x)
  then have "matches (Plus (Cls lower_alnum)) [x]" "matches (Star block_re) []"
    by (auto simp: matches_Plus_Cls_iff intro: m_Star0)
  then show ?case by (metis append_Nil2)
next
  case (3 x y ys)
  show ?case
  proof (cases "separator y")
    case True
    with 3 obtain a b where ys: "ys = a @ b" and a: "matches (Plus (Cls lower_alnum)) a"
      and b: "matches (Star block_re) b"
      by auto
    from True a have blk: "matches block_re ([y] @ a)"
      unfolding block_re_def by (intro m_Seq m_Cls)
    from blk b have "matches (Star block_re) (([y] @ a) @ b)"
      by (rule m_Star)
    moreover from 3 have "matches (Plus (Cls lower_alnum)) [x]"
      by (simp add: matches_Plus_Cls_iff)
    ultimately show ?thesis
      using ys by (metis append_Cons append_Nil)
  next
    case False
    with 3 obtain a b where ys: "y # ys = a @ b" and a: "matches (Plus (Cls lower_alnum)) a"
      and b: "matches (Star block_re) b"
      by auto
    from 3 a have "matches (Plus (Cls lower_alnum)) (x # a)"
      by (simp add: matches_Plus_Cls_iff)
    with b ys show ?thesis
      by (metis append_Cons)
  qed
qed

lemma is_segment_no_slash: "is_segment w \<Longrightarrow> CHR ''/'' \<notin> set w"
  by (induction w rule: is_segment.induct)
    (auto simp: slash_not_alnum slash_not_separator split: if_splits)

lemma matches_segment_slash:
  "matches segment_slash_re w \<longleftrightarrow> (\<exists>seg. w = seg @ ''/'' \<and> is_segment seg)"
proof
  assume "matches segment_slash_re w"
  then obtain a b where "w = a @ b @ ''/''" "matches (Plus (Cls lower_alnum)) a"
    "matches (Star block_re) b"
    unfolding segment_slash_re_def matches_Seq_iff matches_Lit_iff by auto
  then show "\<exists>seg. w = seg @ ''/'' \<and> is_segment seg"
    using segment_sound by (metis append.assoc)
next
  assume "\<exists>seg. w = seg @ ''/'' \<and> is_segment seg"
  then obtain a b where "w = a @ b @ ''/''" "matches (Plus (Cls lower_alnum)) a"
    "matches (Star block_re) b"
    using segment_complete by (metis append.assoc)
  then show "matches segment_slash_re w"
    unfolding segment_slash_re_def by (auto intro!: m_Seq m_Lit)
qed

lemma split_on_no_delim: "d \<notin> set a \<Longrightarrow> split_on d a = [a]"
  by (induction a) auto

lemma split_on_append: "d \<notin> set a \<Longrightarrow> split_on d (a @ d # rest) = a # split_on d rest"
  by (induction a) auto

lemma is_repo_path_single: "is_segment seg \<Longrightarrow> is_repo_path seg"
  by (simp add: is_repo_path_def split_on_no_delim is_segment_no_slash)

lemma is_repo_path_Cons:
  "is_segment seg \<Longrightarrow> is_repo_path (seg @ CHR ''/'' # repo) \<longleftrightarrow> is_repo_path repo"
  by (simp add: is_repo_path_def split_on_append is_segment_no_slash)

lemma Star_segment_sound:
  "matches r v \<Longrightarrow> r = Star segment_slash_re \<Longrightarrow>
     v = [] \<or> (\<exists>repo. v = repo @ ''/'' \<and> is_repo_path repo)"
proof (induction rule: matches.induct)
  case (m_Star a u v)
  then obtain seg where seg: "u = seg @ ''/''" "is_segment seg"
    by (auto simp: matches_segment_slash)
  from m_Star have "v = [] \<or> (\<exists>repo. v = repo @ ''/'' \<and> is_repo_path repo)"
    by simp
  then show ?case
  proof
    assume "v = []"
    with seg show ?thesis by (auto simp: is_repo_path_single)
  next
    assume "\<exists>repo. v = repo @ ''/'' \<and> is_repo_path repo"
    then obtain repo where "v = repo @ ''/''" "is_repo_path repo" by auto
    with seg have "u @ v = (seg @ CHR ''/'' # repo) @ ''/''"
      "is_repo_path (seg @ CHR ''/'' # repo)"
      by (simp_all add: is_repo_path_Cons)
    then show ?thesis by blast
  qed
qed simp_all

lemma repository_sound:
  assumes "matches repository_re g"
  shows "\<exists>repo. g = repo @ ''/'' \<and> is_repo_path repo"
proof -
  from assms obtain u v where "g = u @ v" "matches segment_slash_re u"
    "matches (Star segment_slash_re) v"
    unfolding repository_re_eq matches_Plus_iff by auto
  then have "matches (Star segment_slash_re) g"
    by (auto intro: m_Star)
  moreover from \<open>g = u @ v\<close> \<open>matches segment_slash_re u\<close> have "g \<noteq> []"
    by (auto simp: matches_segment_slash)
  ultimately show ?thesis
    using Star_segment_sound by blast
qed

lemma Plus_imp_Star: "matches (Plus a) w \<Longrightarrow> matches (Star a) w"
  by (auto simp: matches_Plus_iff intro: m_Star)

lemma repository_complete:
  "is_repo_path repo \<Longrightarrow> matches repository_re (repo @ ''/'')"
proof (induction repo rule: length_induct)
  case (1 repo)
  show ?case
  proof (cases "CHR ''/'' \<in> set repo")
    case False
    with 1(2) have "is_segment repo"
      by (simp add: is_repo_path_def split_on_no_delim)
    then have "matches segment_slash_re (repo @ ''/'')"
      by (auto simp: matches_segment_slash)
    then have "matches (Plus segment_slash_re) ((repo @ ''/'') @ [])"
      by (intro m_Plus m_Star0)
    then show ?thesis by (simp add: repository_re_eq)
  next
    case True
    then obtain seg rest where repo: "repo = seg @ CHR ''/'' # rest" and seg: "CHR ''/'' \<notin> set seg"
      by (meson split_list_first)
    with 1(2) have s: "is_segment seg" and r: "is_repo_path rest"
      by (simp_all add: is_repo_path_def split_on_append)
    from repo have "length rest < length repo" by simp
    with 1(1) r have "matches repository_re (rest @ ''/'')" by blast
    then have "matches (Star segment_slash_re) (rest @ ''/'')"
      unfolding repository_re_eq by (rule Plus_imp_Star)
    moreover from s have "matches segment_slash_re (seg @ ''/'')"
      by (auto simp: matches_segment_slash)
    ultimately have "matches (Plus segment_slash_re) ((seg @ ''/'') @ (rest @ ''/''))"
      by (intro m_Plus)
    then show ?thesis by (simp add: repository_re_eq repo)
  qed
qed

lemma matches_repository_re:
  "matches repository_re g \<longleftrightarrow> (\<exists>repo. g = repo @ ''/'' \<and> is_repo_path repo)"
  using repository_sound repository_complete by blast

subsection \<open>Results of the URL matcher\<close>

lemma TrimSuffix_slash: "TrimSuffix (repo @ ''/'') ''/'' = repo"
  by (simp add: TrimSuffix_def)

lemma MatchManifestURL_cases:
  "MatchManifestURL req = (False, [], []) \<and> url_threads (Path req) = []
   \<or> (\<exists>repo ref rest. MatchManifestURL req = (True, repo, ref)
        \<and> Path req = ''/v2/'' @ repo @ ''/manifests/'' @ ref @ rest
        \<and> is_repo_path repo \<and> is_reference ref)"
proof (cases "url_threads (Path req)")
  case Nil
  then show ?thesis by (simp add: MatchManifestURL_threads)
next
  case (Cons t ts)
  then have "t \<in> set (url_threads (Path req))" by simp
  then obtain g1 g2 rest where p: "Path req = ''/v2/'' @ g1 @ ''manifests/'' @ g2 @ rest"
    and g1: "matches repository_re g1" and g2: "matches reference_re g2"
    and t: "t = (rest, [1 \<mapsto> g1, 2 \<mapsto> g2])"
    unfolding in_url_threads by blast
  from g1 obtain repo where repo: "g1 = repo @ ''/''" "is_repo_path repo"
    unfolding matches_repository_re by blast
  from Cons t repo have "MatchManifestURL req = (True, repo, g2)"
    by (simp add: MatchManifestURL_threads TrimSuffix_slash del: append.simps)
  with p repo g2 show ?thesis
    by (auto simp: matches_reference_re)
qed

lemma MatchManifestURL_complete:
  assumes "Path req = ''/v2/'' @ repo @ ''/manifests/'' @ ref @ rest"
    and "is_repo_path repo" and "is_reference ref"
  shows "fst (MatchManifestURL req)"
proof -
  have "matches repository_re (repo @ ''/'')" "matches reference_re ref"
    using assms by (auto simp: matches_repository_re matches_reference_re)
  moreover have "Path req = ''/v2/'' @ (repo @ ''/'') @ ''manifests/'' @ ref @ rest"
    using assms(1) by simp
  ultimately have "(rest, [1 \<mapsto> repo @ ''/'', 2 \<mapsto> ref]) \<in> set (url_threads (Path req))"
    unfolding in_url_threads by blast
  then have "url_threads (Path req) \<noteq> []" by auto
  with MatchManifestURL_cases [of req] show ?thesis by auto
qed

lemma is_reference_nonempty: "is_reference ref \<Longrightarrow> ref \<noteq> []"
  by (auto simp: is_reference_def)

subsection \<open>The order of the search\<close>

lemma find_app:
  "find P (xs @ ys) = (case find P xs of None \<Rightarrow> find P ys | Some x \<Rightarrow> Some x)"
  by (induction xs) auto

lemma find_concat_replicate:
  "find P (concat (replicate k xs)) = (if k = 0 then None else find P xs)"
  by (induction k) (auto simp: find_app split: option.splits)

lemma hd_concat_map_find:
  "find (\<lambda>t. f t \<noteq> []) xs = Some t \<Longrightarrow> hd (concat (map f xs)) = hd (f t)"
  by (induction xs) (auto split: if_splits)

lemma concat_map_find_Nil:
  "find (\<lambda>t. f t \<noteq> []) xs = None \<Longrightarrow> concat (map f xs) = []"
  by (induction xs) (auto split: if_splits)

lemma plain_segment_slash_re: "plain segment_slash_re"
  by (simp add: segment_slash_re_def block_re_def)

lemma segment_slash_unique:
  assumes "t \<in> set (rmatch n segment_slash_re (s, c))"
  shows "t = (after_slash s, c) \<and> length (after_slash s) < length s"
proof -
  from assms obtain w rest where s: "s = w @ rest" and w: "matches segment_slash_re w"
    and t: "t = (rest, c)"
    unfolding in_rmatch_plain [OF plain_segment_slash_re] by blast
  from w obtain seg where seg: "w = seg @ ''/''" "is_segment seg"
    unfolding matches_segment_slash by blast
  then have "CHR ''/'' \<notin> set seg" by (simp add: is_segment_no_slash)
  then have "takeWhile (\<lambda>x. x \<noteq> CHR ''/'') (seg @ CHR ''/'' # rest) = seg"
    by (induction seg) auto
  with s seg have "after_slash s = rest"
    by (simp add: after_slash_def)
  with s seg t show ?thesis by simp
qed

lemma segment_slash_results:
  "rmatch n segment_slash_re (s, c) =
     replicate (length (rmatch n segment_slash_re (s, c))) (after_slash s, c)"
  by (rule replicate_length_same [symmetric]) (use segment_slash_unique in blast)

lemma rmatch_Star_unfold:
  "rmatch n (Star a) (s, c) =
     concat (map (\<lambda>t. if length (fst t) < length s then rmatch n (Star a) t else [])
                 (rmatch n a (s, c))) @ [(s, c)]"
proof -
  have "(\<lambda>(s', c'). if length s' < length s then rmatch n (Star a) (s', c') else [])
          = (\<lambda>t. if length (fst t) < length s then rmatch n (Star a) t else [])"
    by (auto simp: fun_eq_iff)
  then show ?thesis
    by (subst rmatch.simps(5)) (simp only:)
qed

lemma Star_segment_results:
  "rmatch n (Star segment_slash_re) (s, c) =
     (if rmatch n segment_slash_re (s, c) = [] then [(s, c)]
      else concat (replicate (length (rmatch n segment_slash_re (s, c)))
                     (rmatch n (Star segment_slash_re) (after_slash s, c))) @ [(s, c)])"
proof (cases "rmatch n segment_slash_re (s, c) = []")
  case True
  then show ?thesis by (subst rmatch_Star_unfold) simp
next
  case False
  then have "(after_slash s, c) \<in> set (rmatch n segment_slash_re (s, c))"
    by (metis segment_slash_results in_set_replicate length_0_conv)
  then have less: "length (after_slash s) < length s"
    using segment_slash_unique by blast
  have "rmatch n (Star segment_slash_re) (s, c) =
          concat (map (\<lambda>t. if length (fst t) < length s then rmatch n (Star segment_slash_re) t else [])
            (replicate (length (rmatch n segment_slash_re (s, c))) (after_slash s, c))) @ [(s, c)]"
    by (subst rmatch_Star_unfold, subst segment_slash_results) (rule refl)
  with less False show ?thesis
    by (simp add: map_replicate)
qed

lemma rest_length:
  "plain r \<Longrightarrow> t \<in> set (rmatch n r (s, c)) \<Longrightarrow> length (fst t) \<le> length s"
  by (auto simp: in_rmatch_plain)

lemma Star_segment_min:
  "find P (rmatch n (Star segment_slash_re) (s, c)) = Some t \<Longrightarrow>
   u \<in> set (rmatch n (Star segment_slash_re) (s, c)) \<Longrightarrow> P u \<Longrightarrow>
   length (fst t) \<le> length (fst u)"
proof (induction s arbitrary: t u rule: length_induct)
  case (1 s)
  let ?B = "rmatch n segment_slash_re (s, c)"
  let ?X = "rmatch n (Star segment_slash_re) (after_slash s, c)"
  show ?case
  proof (cases "?B = []")
    case True
    with 1(2,3) show ?thesis
      by (subst (asm) (1 2) Star_segment_results) (auto split: if_splits)
  next
    case False
    then have "(after_slash s, c) \<in> set ?B"
      by (metis segment_slash_results in_set_replicate length_0_conv)
    then have less: "length (after_slash s) < length s"
      using segment_slash_unique by blast
    have L: "rmatch n (Star segment_slash_re) (s, c) = concat (replicate (length ?B) ?X) @ [(s, c)]"
      using False by (subst Star_segment_results) simp
    have k: "length ?B \<noteq> 0" using False by simp
    have X_short: "length (fst x) < length s" if "x \<in> set ?X" for x
      using rest_length [of "Star segment_slash_re" x n "after_slash s" c] that less
      by (simp add: plain_segment_slash_re)
    have setL: "set (rmatch n (Star segment_slash_re) (s, c)) = set ?X \<union> {(s, c)}"
      unfolding L using k by auto
    show ?thesis
    proof (cases "find P ?X")
      case None
      then have noP: "\<forall>x \<in> set ?X. \<not> P x"
        unfolding find_None_iff by blast
      from 1(2) None k have "t = (s, c)"
        unfolding L by (auto simp: find_app find_concat_replicate split: if_splits)
      moreover from 1(3,4) noP have "u = (s, c)"
        unfolding setL by auto
      ultimately show ?thesis by simp
    next
      case (Some t0)
      with 1(2) k have t: "t = t0"
        unfolding L by (simp add: find_app find_concat_replicate)
      from Some have "t0 \<in> set ?X"
        by (auto simp: find_Some_iff)
      with t have tX: "t \<in> set ?X" by simp
      from 1(3) consider "u \<in> set ?X" | "u = (s, c)"
        unfolding setL by auto
      then show ?thesis
      proof cases
        case 1
        with "1.IH" less Some t \<open>P u\<close> show ?thesis by blast
      next
        case 2
        with X_short [OF tX] show ?thesis by simp
      qed
    qed
  qed
qed


lemma repository_results:
  "rmatch n repository_re (s, c) =
     concat (replicate (length (rmatch n segment_slash_re (s, c)))
               (rmatch n (Star segment_slash_re) (after_slash s, c)))"
proof -
  have "rmatch n repository_re (s, c) =
          concat (map (rmatch n (Star segment_slash_re))
            (replicate (length (rmatch n segment_slash_re (s, c))) (after_slash s, c)))"
    unfolding repository_re_eq rmatch.simps(6) by (subst segment_slash_results) (rule refl)
  then show ?thesis by (simp add: map_replicate)
qed

lemma repository_min:
  assumes "find P (rmatch n repository_re (s, c)) = Some t"
    and "u \<in> set (rmatch n repository_re (s, c))" and "P u"
  shows "length (fst t) \<le> length (fst u)"
proof -
  let ?k = "length (rmatch n segment_slash_re (s, c))"
  let ?X = "rmatch n (Star segment_slash_re) (after_slash s, c)"
  from assms(1) have k: "?k \<noteq> 0" and f: "find P ?X = Some t"
    unfolding repository_results by (auto simp: find_concat_replicate split: if_splits)
  from assms(2) k have "u \<in> set ?X"
    unfolding repository_results by auto
  from f this assms(3) show ?thesis
    by (rule Star_segment_min)
qed

lemma Upto_Cls_greedy:
  "list_all p xs \<Longrightarrow> length xs \<le> k \<Longrightarrow> \<exists>ts. rmatch n (Upto (Cls p) k) (xs, c) = ([], c) # ts"
proof (induction xs arbitrary: k)
  case Nil
  then show ?case
    by (cases k) (simp_all add: rmatch_Upto_0 rmatch_Upto_Suc)
next
  case (Cons x xs)
  then obtain k' where k: "k = Suc k'" by (cases k) auto
  with Cons obtain ts where "rmatch n (Upto (Cls p) k') (xs, c) = ([], c) # ts"
    by force
  with Cons.prems show ?case
    by (simp add: k rmatch_Upto_Suc)
qed

lemma reference_greedy:
  assumes "is_reference ref"
  shows "\<exists>ts. rmatch n reference_re (ref, c) = ([], c) # ts"
proof -
  from assms obtain x xs where ref: "ref = x # xs" and x: "word_char x"
    and xs: "list_all ref_char xs" "length xs \<le> 127"
    by (auto simp: is_reference_def split: list.splits)
  from Upto_Cls_greedy [OF xs] obtain ts where
    "rmatch n (Upto (Cls ref_char) 127) (xs, c) = ([], c) # ts" by blast
  with x show ?thesis
    by (simp add: ref reference_re_def)
qed

lemma slash_not_ref_char: "\<not> ref_char CHR ''/''"
  by (simp add: ref_char_def word_char_def in_range_def)

lemma is_reference_no_slash: "is_reference ref \<Longrightarrow> CHR ''/'' \<notin> set ref"
proof -
  assume "is_reference ref"
  then have "list_all ref_char ref"
    by (auto simp: is_reference_def ref_char_def split: list.splits)
  then show ?thesis
    using slash_not_ref_char by (auto simp: list_all_iff)
qed

lemma rmatch_Seq_Lit: "rmatch n (Seq (Lit l) r) (l @ s, c) = rmatch n r (s, c)"
  by simp

lemma rmatch_Seq_Cap:
  "rmatch n (Seq (Cap i a) r) (s, c) =
     concat (map (\<lambda>t. rmatch n r (fst t, (snd t)(i \<mapsto> take (length s - length (fst t)) s)))
               (rmatch n a (s, c)))"
  by (simp add: comp_def case_prod_beta)

lemma rmatch_Cap_Cons:
  "rmatch n a (s, c) = (s', c') # ts \<Longrightarrow>
     \<exists>us. rmatch n (Cap i a) (s, c) = (s', c'(i \<mapsto> take (length s - length s') s)) # us"
  by simp

lemma drop_to_suffix:
  "length r \<le> length b \<Longrightarrow> drop (length (a @ b) - length r) (a @ b) = drop (length b - length r) b"
  by simp

lemma MatchManifestURL_exact:
  assumes path: "Path req = ''/v2/'' @ repo @ ''/manifests/'' @ ref"
    and repo: "is_repo_path repo" and ref: "is_reference ref"
  shows "MatchManifestURL req = (True, repo, ref)"
proof -
  let ?n = "length (Path req)"
  let ?s1 = "repo @ ''/manifests/'' @ ref"
  let ?K = "Seq (Lit ''manifests/'') (Cap 2 reference_re)"
  let ?f = "\<lambda>t. rmatch ?n ?K (fst t, (snd t)(1 \<mapsto> take (length ?s1 - length (fst t)) ?s1))"
  let ?R = "rmatch ?n repository_re (?s1, Map.empty)"
  let ?t = "(''manifests/'' @ ref, Map.empty :: caps)"
  let ?c = "[1 \<mapsto> repo @ ''/'', 2 \<mapsto> ref] :: caps"
  have "(Path req, Map.empty :: caps) = (''/v2/'' @ ?s1, Map.empty)"
    by (simp add: path)
  then have threads: "url_threads (Path req) = concat (map ?f ?R)"
    by (simp only: url_threads_def rmatch_Seq_Lit rmatch_Seq_Cap)
  have "matches repository_re (repo @ ''/'')"
    using repo by (auto simp: matches_repository_re)
  then have tR: "?t \<in> set ?R"
    unfolding in_rmatch_plain [OF plain_repository_re]
    by (intro exI [of _ "repo @ ''/''"] exI [of _ "''manifests/'' @ ref"]) simp
  from reference_greedy [OF ref] obtain ts where
    "rmatch ?n reference_re (ref, [1 \<mapsto> repo @ ''/'']) = ([], [1 \<mapsto> repo @ ''/'']) # ts"
    by blast
  from rmatch_Cap_Cons [OF this, of 2] obtain us where
    "rmatch ?n (Cap 2 reference_re) (ref, [1 \<mapsto> repo @ ''/'']) = ([], ?c) # us"
    by auto
  moreover have "take (length ?s1 - length (''manifests/'' @ ref)) ?s1 = repo @ ''/''"
    by simp
  ultimately have ft: "?f ?t = ([], ?c) # us"
    by (simp only: fst_conv snd_conv rmatch_Seq_Lit)
  then have good: "?f ?t \<noteq> []" by simp
  with tR have "find (\<lambda>t. ?f t \<noteq> []) ?R \<noteq> None"
    unfolding find_None_iff by blast
  then obtain t where first: "find (\<lambda>t. ?f t \<noteq> []) ?R = Some t" by blast
  from first have t_good: "?f t \<noteq> []" and t_in: "t \<in> set ?R"
    by (auto simp: find_Some_iff)
  from repository_min [OF first tR good] have len: "length (fst t) \<le> length (''manifests/'' @ ref)"
    by simp
  from t_in obtain w rest where s1: "?s1 = w @ rest" and t: "t = (rest, Map.empty)"
    unfolding in_rmatch_plain [OF plain_repository_re] by blast
  from t_good obtain t' where "t' \<in> set (?f t)" by (meson last_in_set)
  then obtain r0 where rest: "rest = ''manifests/'' @ r0"
    unfolding in_rmatch_Seq in_rmatch_Lit_thread t by auto
  from len t rest have r0_len: "length r0 \<le> length ref" by simp
  define pre where "pre = take (length ref - length r0) ref"
  have "drop (length ?s1 - length r0) ?s1 = r0"
    unfolding s1 rest by simp
  moreover have "drop (length ?s1 - length r0) ?s1 = drop (length ref - length r0) ref"
    using drop_to_suffix [OF r0_len, of "repo @ ''/manifests/''"]
    by (simp only: append.assoc)
  ultimately have ref_split: "ref = pre @ r0"
    unfolding pre_def by (metis append_take_drop_id)
  with s1 rest have eq: "w @ ''manifests/'' = repo @ ''/manifests/'' @ pre"
    by simp
  have "pre = []"
  proof (rule ccontr)
    assume "pre \<noteq> []"
    then have "last (repo @ ''/manifests/'' @ pre) = last pre" by simp
    with eq have "last pre = CHR ''/''"
      by (metis last_appendR last.simps list.distinct(1) last_snoc append_Cons append_Nil
          snoc_eq_iff_butlast)
    with \<open>pre \<noteq> []\<close> have "CHR ''/'' \<in> set pre" by (metis last_in_set)
    with ref_split is_reference_no_slash [OF ref] show False by simp
  qed
  with ref_split rest t have "t = ?t" by simp
  with first have "hd (concat (map ?f ?R)) = hd (?f ?t)"
    by (simp add: hd_concat_map_find)
  with ft have hd: "hd (url_threads (Path req)) = ([], ?c)"
    by (simp add: threads)
  from tR good have "concat (map ?f ?R) \<noteq> []" by force
  with hd threads obtain us where "url_threads (Path req) = ([], ?c) # us"
    by (metis list.collapse)
  then show ?thesis
    by (simp add: MatchManifestURL_threads TrimSuffix_slash del: append.simps)
qed

subsection \<open>Example paths\<close>

lemma find_latest:
  "FindStringSubmatch manifestURLRe ''/v2/a/b/manifests/latest''
     = [''/v2/a/b/manifests/latest'', ''a/b/'', ''latest'']"
  by code_simp

lemma find_digest:
  "FindStringSubmatch manifestURLRe
     ''/v2/a/b/manifests/sha256:0123456789abcdef0123456789abcdef0123456789abcdef0123456789abcdef''
   = [''/v2/a/b/manifests/sha256:0123456789abcdef0123456789abcdef0123456789abcdef0123456789abcdef'',
      ''a/b/'', ''sha256:0123456789abcdef0123456789abcdef0123456789abcdef0123456789abcdef'']"
  by code_simp

lemma find_dash: "FindStringSubmatch manifestURLRe ''/v2/a/manifests/-x'' = []"
  by code_simp

lemma validate_latest: "digest_Validate ''latest'' = Some ErrDigestInvalidFormat"
  by code_simp

lemma validate_digest:
  "digest_Validate ''sha256:0123456789abcdef0123456789abcdef0123456789abcdef0123456789abcdef'' = None"
  by code_simp

lemma validate_sha512: "digest_Validate sha512_digest = None"
  by code_simp

lemma validate_sha512_cut:
  "digest_Validate
     ''sha512:0123456789abcdef0123456789abcdef0123456789abcdef0123456789abcdef0123456789abcdef0123456789abcdef0123456789abcdef012345678''
   = Some ErrDigestInvalidLength"
  by code_simp

lemma find_sha512:
  "FindStringSubmatch manifestURLRe (''/v2/a/b/manifests/'' @ sha512_digest)
   = [''/v2/a/b/manifests/'' @
        ''sha512:0123456789abcdef0123456789abcdef0123456789abcdef0123456789abcdef0123456789abcdef0123456789abcdef0123456789abcdef012345678'',
      ''a/b/'',
      ''sha512:0123456789abcdef0123456789abcdef0123456789abcdef0123456789abcdef0123456789abcdef0123456789abcdef0123456789abcdef012345678'']"
  by code_simp

lemma match_sha512:
  "MatchManifestURL delete_by_sha512 =
     (True, ''a/b'',
      ''sha512:0123456789abcdef0123456789abcdef0123456789abcdef0123456789abcdef0123456789abcdef0123456789abcdef0123456789abcdef012345678'')"
  by (simp add: MatchManifestURL_def delete_by_sha512_def find_sha512 TrimSuffix_def
      del: append.simps)

lemma match_latest:
  "Path req = ''/v2/a/b/manifests/latest'' \<Longrightarrow> MatchManifestURL req = (True, ''a/b'', ''latest'')"
  by (simp add: MatchManifestURL_def find_latest TrimSuffix_def)

lemma match_digest:
  "MatchManifestURL delete_by_digest =
     (True, ''a/b'', ''sha256:0123456789abcdef0123456789abcdef0123456789abcdef0123456789abcdef'')"
  by (simp add: MatchManifestURL_def delete_by_digest_def find_digest TrimSuffix_def)

lemma match_dash: "MatchManifestURL dash_reference = (False, [], [])"
  by (simp add: MatchManifestURL_def dash_reference_def find_dash)

subsection \<open>The three matchers\<close>

text \<open>
  A DELETE request for \<^verbatim>\<open>/v2/a/b/manifests/<digest>\<close> with a sha512 digest: the digest parses,
  but it has 135 characters and the expression takes at most 128 as the reference. What
  \<^verbatim>\<open>MatchDeleteManifest\<close> hands to the digest parser is the digest cut short, which has
  the wrong length, and the request is not matched.
\<close>

theorem manifest_matchers_counterexample:
  "Method delete_by_sha512 = ''DELETE''
   \<and> Path delete_by_sha512 = ''/v2/a/b/manifests/'' @ sha512_digest
   \<and> digest_Validate sha512_digest = None
   \<and> MatchDeleteManifest digest_Validate delete_by_sha512 =
       (False, ''a/b'',
        ''sha512:0123456789abcdef0123456789abcdef0123456789abcdef0123456789abcdef0123456789abcdef0123456789abcdef0123456789abcdef012345678'')"
proof -
  have "Method delete_by_sha512 = ''DELETE''"
    "Path delete_by_sha512 = ''/v2/a/b/manifests/'' @ sha512_digest"
    by (simp_all add: delete_by_sha512_def)
  then show ?thesis
    by (simp add: MatchDeleteManifest_def match_sha512 validate_sha512 validate_sha512_cut
        digest_Parse_def del: append.simps)
qed

text \<open>
  C3, amended. For the path \<^verbatim>\<open>/v2/a/b/manifests/latest\<close>, \<^verbatim>\<open>MatchPullManifest\<close> with method
  GET and \<^verbatim>\<open>MatchPushManifest\<close> with method PUT return \<open>(true, "a/b", "latest")\<close>. A DELETE
  request for \<^verbatim>\<open>/v2/a/b/manifests/<reference>\<close> is matched by \<^verbatim>\<open>MatchDeleteManifest\<close>, with
  \<open>a/b\<close> and the reference, when the reference parses as a digest and has the shape the
  URL gives a reference: a word character followed by at most 127 characters drawn from
  word characters and \<open>.:-\<close>, so 128 characters at most. More generally a DELETE request is
  matched whenever the reference that \<^verbatim>\<open>MatchManifestURL\<close> takes from its path parses as a
  digest. With the reference \<open>latest\<close>, which the parser rejects as it is a tag, the
  request is not matched. Each matcher returns no match for every other method.
\<close>

theorem manifest_matchers:
  "MatchPullManifest \<lparr>Method = ''GET'', Path = ''/v2/a/b/manifests/latest'', Header = h, Body = b\<rparr>
     = (True, ''a/b'', ''latest'')
   \<and> MatchPushManifest \<lparr>Method = ''PUT'', Path = ''/v2/a/b/manifests/latest'', Header = h, Body = b\<rparr>
     = (True, ''a/b'', ''latest'')
   \<and> (Method req = ''DELETE'' \<and> MatchManifestURL req = (True, repository, reference)
        \<and> check reference = None \<longrightarrow>
          MatchDeleteManifest check req = (True, repository, reference))
   \<and> (is_reference ref \<and> check ref = None \<longrightarrow>
        MatchDeleteManifest check
          \<lparr>Method = ''DELETE'', Path = ''/v2/a/b/manifests/'' @ ref, Header = h, Body = b\<rparr>
          = (True, ''a/b'', ref))
   \<and> (check ''latest'' \<noteq> None \<longrightarrow>
        fst (MatchDeleteManifest check
               \<lparr>Method = ''DELETE'', Path = ''/v2/a/b/manifests/latest'', Header = h, Body = b\<rparr>)
          = False)
   \<and> (Method req \<noteq> ''GET'' \<longrightarrow> MatchPullManifest req = (False, [], []))
   \<and> (Method req \<noteq> ''PUT'' \<longrightarrow> MatchPushManifest req = (False, [], []))
   \<and> (Method req \<noteq> ''DELETE'' \<longrightarrow> MatchDeleteManifest check req = (False, [], []))"
proof -
  have "is_repo_path ''a/b''"
    by (simp add: is_repo_path_def lower_alnum_def in_range_def)
  then have "MatchManifestURL
      \<lparr>Method = ''DELETE'', Path = ''/v2/a/b/manifests/'' @ ref, Header = h, Body = b\<rparr>
      = (True, ''a/b'', ref)" if "is_reference ref"
    using that by (intro MatchManifestURL_exact) simp_all
  then show ?thesis
    by (auto simp: MatchPullManifest_def MatchPushManifest_def MatchDeleteManifest_def
        match_latest digest_Parse_def split: option.splits)
qed

theorem manifest_matchers_witness:
  "MatchDeleteManifest digest_Validate delete_by_digest =
     (True, ''a/b'', ''sha256:0123456789abcdef0123456789abcdef0123456789abcdef0123456789abcdef'')
   \<and> fst (MatchDeleteManifest digest_Validate delete_by_tag) = False
   \<and> MatchPullManifest delete_by_tag = (False, [], [])
   \<and> MatchPushManifest delete_by_tag = (False, [], [])"
proof -
  note by_digest = manifest_matchers [where h = no_header and b = None and req = delete_by_digest
      and repository = "''a/b''" and check = digest_Validate and ref = "''latest''"
      and reference = "''sha256:0123456789abcdef0123456789abcdef0123456789abcdef0123456789abcdef''"]
  note by_tag = manifest_matchers [where h = no_header and b = None and req = delete_by_tag
      and repository = "''a/b''" and reference = "''latest''" and check = digest_Validate
      and ref = "''latest''"]
  have "Method delete_by_digest = ''DELETE''"
    by (simp add: delete_by_digest_def)
  with by_digest match_digest validate_digest
  have 1: "MatchDeleteManifest digest_Validate delete_by_digest =
     (True, ''a/b'', ''sha256:0123456789abcdef0123456789abcdef0123456789abcdef0123456789abcdef'')"
    by blast
  from by_tag validate_latest have 2: "fst (MatchDeleteManifest digest_Validate delete_by_tag) = False"
    unfolding delete_by_tag_def by simp
  have "Method delete_by_tag \<noteq> ''GET''" "Method delete_by_tag \<noteq> ''PUT''"
    by (simp_all add: delete_by_tag_def)
  with by_tag have 3: "MatchPullManifest delete_by_tag = (False, [], [])"
    "MatchPushManifest delete_by_tag = (False, [], [])"
    by blast+
  from 1 2 3 show ?thesis by blast
qed

subsection \<open>The result when nothing matches\<close>

text \<open>
  A DELETE request for a tag: the URL matches, the reference is not a digest, and
  \<^verbatim>\<open>MatchDeleteManifest\<close> returns false together with the repository and the reference it
  took from the URL, not with empty strings.
\<close>

theorem no_match_result_counterexample:
  "Method delete_by_tag = ''DELETE''
   \<and> digest_Validate ''latest'' = Some ErrDigestInvalidFormat
   \<and> MatchDeleteManifest digest_Validate delete_by_tag = (False, ''a/b'', ''latest'')"
  by (simp add: MatchDeleteManifest_def match_latest validate_latest digest_Parse_def
      delete_by_tag_def)

text \<open>
  C4, amended. A matcher that does not match returns the flag false, and it has no error
  result. \<^verbatim>\<open>MatchManifestURL\<close>, \<^verbatim>\<open>MatchPullManifest\<close> and \<^verbatim>\<open>MatchPushManifest\<close> then return
  \<open>(false, "", "")\<close>, and so does \<^verbatim>\<open>MatchDeleteManifest\<close> when the method is not DELETE or
  the path does not match. For a DELETE request whose reference is not a digest the flag
  is false.
\<close>

theorem no_match_result:
  "(\<not> fst (MatchManifestURL req) \<longrightarrow> MatchManifestURL req = (False, [], []))
   \<and> (\<not> fst (MatchPullManifest req) \<longrightarrow> MatchPullManifest req = (False, [], []))
   \<and> (\<not> fst (MatchPushManifest req) \<longrightarrow> MatchPushManifest req = (False, [], []))
   \<and> (Method req \<noteq> ''DELETE'' \<or> \<not> fst (MatchManifestURL req) \<longrightarrow>
        MatchDeleteManifest check req = (False, [], []))
   \<and> (check (snd (snd (MatchManifestURL req))) \<noteq> None \<longrightarrow>
        fst (MatchDeleteManifest check req) = False)"
  by (auto simp: MatchManifestURL_def MatchPullManifest_def MatchPushManifest_def
      MatchDeleteManifest_def digest_Parse_def Let_def split: option.splits if_splits)

theorem no_match_result_witness:
  "MatchManifestURL dash_reference = (False, [], [])
   \<and> MatchPullManifest dash_reference = (False, [], [])
   \<and> MatchPushManifest dash_reference = (False, [], [])
   \<and> MatchDeleteManifest digest_Validate dash_reference = (False, [], [])
   \<and> fst (MatchDeleteManifest digest_Validate delete_by_tag) = False"
proof -
  note dash = no_match_result [of dash_reference digest_Validate]
  note tag = no_match_result [of delete_by_tag digest_Validate]
  have "\<not> fst (MatchManifestURL dash_reference)"
    "\<not> fst (MatchPullManifest dash_reference)"
    "\<not> fst (MatchPushManifest dash_reference)"
    by (simp_all add: MatchPullManifest_def MatchPushManifest_def match_dash)
  with dash have 1: "MatchManifestURL dash_reference = (False, [], [])"
    "MatchPullManifest dash_reference = (False, [], [])"
    "MatchPushManifest dash_reference = (False, [], [])"
    "MatchDeleteManifest digest_Validate dash_reference = (False, [], [])"
    by blast+
  have "digest_Validate (snd (snd (MatchManifestURL delete_by_tag))) \<noteq> None"
    by (simp add: match_latest delete_by_tag_def validate_latest)
  with tag have 2: "fst (MatchDeleteManifest digest_Validate delete_by_tag) = False"
    by blast
  from 1 2 show ?thesis by blast
qed

lemma MatchManifestURL_Body: "MatchManifestURL (req\<lparr>Body := b\<rparr>) = MatchManifestURL req"
  by (simp add: MatchManifestURL_def)

subsection \<open>The shape of the paths that match\<close>

text \<open>
  The path \<^verbatim>\<open>/v2/a/manifests/-x\<close> has the shape of the spec, with the repository path \<open>a\<close>
  and the reference \<open>-x\<close> of two characters drawn from word characters and \<open>.:-\<close>, and
  \<^verbatim>\<open>MatchManifestURL\<close> does not match it: a reference starts with a word character.
\<close>

theorem MatchManifestURL_shape_counterexample:
  "Path dash_reference = ''/v2/'' @ ''a'' @ ''/manifests/'' @ ''-x''
   \<and> is_repo_path ''a'' \<and> spec_reference ''-x''
   \<and> MatchManifestURL dash_reference = (False, [], [])"
proof -
  have "is_repo_path ''a''"
    by (simp add: is_repo_path_def lower_alnum_def in_range_def)
  moreover have "spec_reference ''-x''"
    by (simp add: spec_reference_def ref_char_def word_char_def in_range_def)
  moreover have "Path dash_reference = ''/v2/'' @ ''a'' @ ''/manifests/'' @ ''-x''"
    by (simp add: dash_reference_def)
  ultimately show ?thesis
    using match_dash by blast
qed

text \<open>
  C8, amended. \<^verbatim>\<open>MatchManifestURL\<close> matches exactly the paths that begin with
  \<^verbatim>\<open>/v2/<repo-path>/manifests/<reference>\<close>, where the repository path is one or more
  segments separated by slashes, each made of runs of lower-case letters and digits with
  single separators \<open>.\<close>, \<open>_\<close>, \<open>-\<close> between runs, and the reference is a word character
  followed by at most 127 characters drawn from word characters and \<open>.:-\<close>. When it
  matches, the repository and the reference it returns are such a repository path and
  reference with which the path begins, and they are those of the path when the path ends
  with the reference; for every other path it returns \<open>(false, "", "")\<close>.
\<close>

theorem MatchManifestURL_shape:
  "(fst (MatchManifestURL req) \<longleftrightarrow>
      (\<exists>repo ref rest. Path req = ''/v2/'' @ repo @ ''/manifests/'' @ ref @ rest
         \<and> is_repo_path repo \<and> is_reference ref))
   \<and> (MatchManifestURL req = (True, repository, reference) \<longrightarrow>
        is_repo_path repository \<and> is_reference reference
        \<and> (\<exists>rest. Path req = ''/v2/'' @ repository @ ''/manifests/'' @ reference @ rest))
   \<and> (Path req = ''/v2/'' @ repo' @ ''/manifests/'' @ ref' \<and> is_repo_path repo'
        \<and> is_reference ref' \<longrightarrow> MatchManifestURL req = (True, repo', ref'))
   \<and> (\<not> fst (MatchManifestURL req) \<longrightarrow> MatchManifestURL req = (False, [], []))"
proof -
  note cases = MatchManifestURL_cases [of req]
  have 1: "fst (MatchManifestURL req) \<longleftrightarrow>
      (\<exists>repo ref rest. Path req = ''/v2/'' @ repo @ ''/manifests/'' @ ref @ rest
         \<and> is_repo_path repo \<and> is_reference ref)"
  proof
    assume "fst (MatchManifestURL req)"
    with cases show "\<exists>repo ref rest. Path req = ''/v2/'' @ repo @ ''/manifests/'' @ ref @ rest
         \<and> is_repo_path repo \<and> is_reference ref"
      by fastforce
  next
    assume "\<exists>repo ref rest. Path req = ''/v2/'' @ repo @ ''/manifests/'' @ ref @ rest
         \<and> is_repo_path repo \<and> is_reference ref"
    then obtain repo ref rest where "Path req = ''/v2/'' @ repo @ ''/manifests/'' @ ref @ rest"
      "is_repo_path repo" "is_reference ref" by blast
    then show "fst (MatchManifestURL req)"
      by (rule MatchManifestURL_complete)
  qed
  have 2: "is_repo_path repository \<and> is_reference reference
        \<and> (\<exists>rest. Path req = ''/v2/'' @ repository @ ''/manifests/'' @ reference @ rest)"
    if "MatchManifestURL req = (True, repository, reference)"
    using cases that by fastforce
  have 3: "MatchManifestURL req = (True, repo', ref')"
    if "Path req = ''/v2/'' @ repo' @ ''/manifests/'' @ ref' \<and> is_repo_path repo'
        \<and> is_reference ref'"
    using that by (intro MatchManifestURL_exact) blast+
  have 4: "MatchManifestURL req = (False, [], [])" if "\<not> fst (MatchManifestURL req)"
    using cases that by fastforce
  from 1 2 3 4 show ?thesis by blast
qed

theorem MatchManifestURL_shape_witness:
  "MatchManifestURL delete_by_tag = (True, ''a/b'', ''latest'')
   \<and> is_repo_path ''a/b'' \<and> is_reference ''latest''
   \<and> \<not> (\<exists>repo ref rest. Path dash_reference = ''/v2/'' @ repo @ ''/manifests/'' @ ref @ rest
         \<and> is_repo_path repo \<and> is_reference ref)"
proof -
  have p: "Path delete_by_tag = ''/v2/'' @ ''a/b'' @ ''/manifests/'' @ ''latest''"
    by (simp add: delete_by_tag_def)
  have r: "is_repo_path ''a/b''"
    by (simp add: is_repo_path_def lower_alnum_def in_range_def)
  have f: "is_reference ''latest''"
    by (simp add: is_reference_def ref_char_def word_char_def in_range_def)
  note tag = MatchManifestURL_shape [where req = delete_by_tag and repo' = "''a/b''"
      and ref' = "''latest''" and repository = "[]" and reference = "[]"]
  from tag p r f have 1: "MatchManifestURL delete_by_tag = (True, ''a/b'', ''latest'')"
    by blast
  note dash = MatchManifestURL_shape [where req = dash_reference and repo' = "[]"
      and ref' = "[]" and repository = "[]" and reference = "[]"]
  have "\<not> fst (MatchManifestURL dash_reference)"
    by (simp add: match_dash)
  with dash have 2: "\<not> (\<exists>repo ref rest.
         Path dash_reference = ''/v2/'' @ repo @ ''/manifests/'' @ ref @ rest
         \<and> is_repo_path repo \<and> is_reference ref)"
    by blast
  from 1 r f 2 show ?thesis by blast
qed

subsection \<open>Manifest information from a path\<close>

text \<open>
  C9. \<^verbatim>\<open>ParseManifestInfoFromPath\<close> does not depend on the body of the request. On a
  matching URL whose project is found it returns a \<^verbatim>\<open>ManifestInfo\<close> in which exactly one of
  \<^verbatim>\<open>Tag\<close> and \<^verbatim>\<open>Digest\<close> is non-empty: the digest is the reference and the tag is empty when
  the reference parses as a digest, and the tag is the reference and the digest is empty
  otherwise. \<^verbatim>\<open>References\<close> and \<^verbatim>\<open>Descriptor\<close> are unset.
\<close>

theorem ParseManifestInfoFromPath_result:
  "ParseManifestInfoFromPath env (req\<lparr>Body := b\<rparr>) = ParseManifestInfoFromPath env req
   \<and> (MatchManifestURL req = (True, repository, reference)
        \<and> GetProjectByName env (fst (ParseRepository repository)) = Inr (Some project) \<longrightarrow>
       (\<exists>info. ParseManifestInfoFromPath env req = Inr info
          \<and> (Tag info = [] \<longleftrightarrow> Digest info \<noteq> [])
          \<and> (validate env reference = None \<longrightarrow> Digest info = reference \<and> Tag info = [])
          \<and> (validate env reference \<noteq> None \<longrightarrow> Tag info = reference \<and> Digest info = [])
          \<and> References info = [] \<and> Descriptor info = None
          \<and> ProjectID info = p_ProjectID project \<and> Repository info = repository))"
proof (intro conjI impI)
  show "ParseManifestInfoFromPath env (req\<lparr>Body := b\<rparr>) = ParseManifestInfoFromPath env req"
    by (simp add: ParseManifestInfoFromPath_def MatchManifestURL_Body cong: if_cong)
next
  assume a: "MatchManifestURL req = (True, repository, reference)
        \<and> GetProjectByName env (fst (ParseRepository repository)) = Inr (Some project)"
  with MatchManifestURL_cases [of req] have "is_reference reference" by auto
  then have "reference \<noteq> []" by (rule is_reference_nonempty)
  with a show "\<exists>info. ParseManifestInfoFromPath env req = Inr info
          \<and> (Tag info = [] \<longleftrightarrow> Digest info \<noteq> [])
          \<and> (validate env reference = None \<longrightarrow> Digest info = reference \<and> Tag info = [])
          \<and> (validate env reference \<noteq> None \<longrightarrow> Tag info = reference \<and> Digest info = [])
          \<and> References info = [] \<and> Descriptor info = None
          \<and> ProjectID info = p_ProjectID project \<and> Repository info = repository"
    by (cases "validate env reference")
      (auto simp: ParseManifestInfoFromPath_def digest_Parse_def ManifestInfo_zero_def Let_def
        split: prod.splits)
qed

theorem ParseManifestInfoFromPath_result_witness:
  "ParseManifestInfoFromPath library_env delete_by_tag =
     Inr (ManifestInfo_zero\<lparr>ProjectID := 7, Repository := ''a/b'', Tag := ''latest''\<rparr>)
   \<and> ParseManifestInfoFromPath library_env delete_by_digest =
     Inr (ManifestInfo_zero\<lparr>ProjectID := 7, Repository := ''a/b'',
        Digest := ''sha256:0123456789abcdef0123456789abcdef0123456789abcdef0123456789abcdef''\<rparr>)"
proof -
  have p: "GetProjectByName library_env (fst (ParseRepository ''a/b''))
             = Inr (Some \<lparr>p_ProjectID = 7, p_Name = ''a''\<rparr>)"
    by (simp add: library_env_def ParseRepository_def)
  have v: "validate library_env = digest_Validate"
    by (simp add: library_env_def)
  have m: "MatchManifestURL delete_by_tag = (True, ''a/b'', ''latest'')"
    by (simp add: match_latest delete_by_tag_def)
  from ParseManifestInfoFromPath_result [where env = library_env and req = delete_by_tag
      and repository = "''a/b''" and reference = "''latest''"
      and project = "\<lparr>p_ProjectID = 7, p_Name = ''a''\<rparr>"] p m v validate_latest
  obtain info where 1: "ParseManifestInfoFromPath library_env delete_by_tag = Inr info"
    "Tag info = ''latest''" "Digest info = []" by auto
  from ParseManifestInfoFromPath_result [where env = library_env and req = delete_by_digest
      and repository = "''a/b''"
      and reference = "''sha256:0123456789abcdef0123456789abcdef0123456789abcdef0123456789abcdef''"
      and project = "\<lparr>p_ProjectID = 7, p_Name = ''a''\<rparr>"] p match_digest v validate_digest
  obtain info' where 2: "ParseManifestInfoFromPath library_env delete_by_digest = Inr info'"
    "Tag info' = []"
    "Digest info' = ''sha256:0123456789abcdef0123456789abcdef0123456789abcdef0123456789abcdef''"
    by auto
  from 1 2 m p v show ?thesis
    by (simp add: ParseManifestInfoFromPath_def match_digest digest_Parse_def validate_latest
        validate_digest split: prod.splits)
qed

end
